theory Spec2Isabelle
  imports Main "HOL-Library.Word"
begin

section \<open>Data model of app.go\<close>

text \<open>
  Go's \<open>int64\<close> is a 64-bit two's complement word: \<open>+=\<close> wraps and \<open>> 0\<close> is the
  signed comparison. A \<open>*TrafficCounter\<close> is an address into a store of counter objects,
  because the counters map, the listener wrapper and every wrapped connection share one
  object. Time is the monotonic clock in nanoseconds.
\<close>

type_synonym int64 = "64 word"
type_synonym addr = nat

record SocksRule =
  ID :: string
  Name :: string
  Port :: int
  Username :: string
  Password :: string
  NoAuth :: bool
  Running :: bool
  EnableUDP :: bool
  UploadBytes :: int64
  DownloadBytes :: int64

text \<open>The \<open>app\<close> back pointer of a counter is left out: there is one App.\<close>

record TrafficCounter =
  uploadBytes :: int64
  downloadBytes :: int64
  ruleID :: string
  lastSync :: int

text \<open>The options handed to \<open>socks5.NewServer\<close>; the server itself is the external library.\<close>

datatype socks5_Option =
    WithBindIP string
  | WithRule bool bool bool
  | WithCredential string string

type_synonym Server = "socks5_Option list"

text \<open>A bound TCP listener of the operating system, known by its port.\<close>

record NetListener =
  lport :: int

record StatsListener =
  Listener :: NetListener
  l_counter :: addr
  l_ruleID :: string

record TrafficConnWrapper =
  Conn :: nat
  c_counter :: addr

text \<open>
  The configuration file \<open>gosker_rules.json\<close>. Its bytes are abstracted to what
  \<open>encoding/json\<close> decodes them to: no file, a file that cannot be read, a file that
  does not parse, or an array of rule records.
\<close>

datatype ConfigFile = NoFile | Unreadable | Malformed | RuleFile "SocksRule list"

datatype error = WriteFailed | ReadFailed | ParseFailed | RuleNotFound string

text \<open>The two kinds of mutex, and the log of the calls to \<open>Lock\<close> and \<open>Unlock\<close>.\<close>

datatype mutex = AppMu | CounterMu addr

datatype lock_event = Acquire mutex | Release mutex

text \<open>The fields of the \<open>App\<close> struct (\<open>ctx\<close> is unused by the operations; \<open>mu\<close> is \<open>AppMu\<close>).\<close>

record App =
  rules :: "SocksRule list"
  servers :: "string \<rightharpoonup> Server"
  listeners :: "string \<rightharpoonup> StatsListener"
  counters :: "string \<rightharpoonup> addr"

text \<open>
  The App together with what its methods read and change outside the struct: the store of
  counter objects and the next free address, the clock, the TCP ports bound on the host,
  the configuration file and whether it can be written, the number of \<open>go saveRules()\<close>
  goroutines spawned, and the log of mutex calls of the goroutine that runs the methods.
\<close>

record world = App +
  heap :: "addr \<Rightarrow> TrafficCounter"
  nextAddr :: addr
  now :: int
  ports :: "int set"
  cfile :: ConfigFile
  writable :: bool
  asyncSaves :: nat
  trace :: "lock_event list"

definition mu_Lock :: "mutex \<Rightarrow> world \<Rightarrow> world" where
  "mu_Lock m w = w\<lparr>trace := trace w @ [Acquire m]\<rparr>"

definition mu_Unlock :: "mutex \<Rightarrow> world \<Rightarrow> world" where
  "mu_Unlock m w = w\<lparr>trace := trace w @ [Release m]\<rparr>"

text \<open>The environment: \<open>d\<close> nanoseconds pass.\<close>

definition advance :: "int \<Rightarrow> world \<Rightarrow> world" where
  "advance d w = w\<lparr>now := now w + d\<rparr>"

definition second :: int where
  "second = 1000000000"

section \<open>Helpers of the embedding\<close>

text \<open>
  \<open>for i := range a.rules { if a.rules[i].ID == id { ...; break } }\<close>: the index of the
  first rule with the id, the model of the pointer \<open>&a.rules[i]\<close>.
\<close>

fun findRule :: "SocksRule list \<Rightarrow> string \<Rightarrow> nat option" where
  "findRule [] rid = None"
| "findRule (r # rs) rid = (if ID r = rid then Some 0 else map_option Suc (findRule rs rid))"

text \<open>\<open>fmt.Sprintf("rule_%d", n)\<close> for a non-negative \<open>n\<close>.\<close>

fun itoa :: "nat \<Rightarrow> string" where
  "itoa n = (if n < 10 then [''0123456789'' ! n]
             else itoa (n div 10) @ [''0123456789'' ! (n mod 10)])"

declare itoa.simps [simp del]

definition rule_name :: "nat \<Rightarrow> string" where
  "rule_name n = ''rule_'' @ itoa n"

section \<open>TrafficCounter\<close>

text \<open>\<open>NewTrafficCounter\<close>: a fresh object, zero accumulators, \<open>lastSync = time.Now()\<close>.\<close>

definition NewTrafficCounter :: "string \<Rightarrow> world \<Rightarrow> addr \<times> world" where
  "NewTrafficCounter rid w =
     (nextAddr w,
      w\<lparr>heap := (heap w)(nextAddr w :=
             \<lparr>uploadBytes = 0, downloadBytes = 0, ruleID = rid, lastSync = now w\<rparr>),
        nextAddr := Suc (nextAddr w)\<rparr>)"

text \<open>
  \<open>syncToRule\<close>: takes the App mutex, adds the accumulators to the first rule with the
  counter's id, zeroes them, stamps \<open>lastSync\<close>, and spawns \<open>go saveRules()\<close> when the
  index \<open>i\<close> of the rule is a multiple of 10. Without such a rule nothing changes.
\<close>

definition syncToRule :: "addr \<Rightarrow> world \<Rightarrow> world" where
  "syncToRule t w0 =
     (let w = mu_Lock AppMu w0 in
      mu_Unlock AppMu
       (case findRule (rules w) (ruleID (heap w t)) of
          None \<Rightarrow> w
        | Some i \<Rightarrow>
            let c = heap w t;
                rule = rules w ! i;
                w1 = w\<lparr>rules := (rules w)[i := rule\<lparr>UploadBytes := UploadBytes rule + uploadBytes c,
                                                    DownloadBytes := DownloadBytes rule + downloadBytes c\<rparr>],
                       heap := (heap w)(t := c\<lparr>uploadBytes := 0, downloadBytes := 0,
                                                lastSync := now w\<rparr>)\<rparr>
            in if i mod 10 = 0 then w1\<lparr>asyncSaves := Suc (asyncSaves w1)\<rparr> else w1))"

definition CountUpload :: "addr \<Rightarrow> int \<Rightarrow> world \<Rightarrow> world" where
  "CountUpload t n w0 =
     (let w = mu_Lock (CounterMu t) w0;
          c = heap w t;
          w1 = w\<lparr>heap := (heap w)(t := c\<lparr>uploadBytes := uploadBytes c + word_of_int n\<rparr>)\<rparr>;
          w2 = (if now w1 - lastSync (heap w1 t) > 3 * second then syncToRule t w1 else w1)
      in mu_Unlock (CounterMu t) w2)"

definition CountDownload :: "addr \<Rightarrow> int \<Rightarrow> world \<Rightarrow> world" where
  "CountDownload t n w0 =
     (let w = mu_Lock (CounterMu t) w0;
          c = heap w t;
          w1 = w\<lparr>heap := (heap w)(t := c\<lparr>downloadBytes := downloadBytes c + word_of_int n\<rparr>)\<rparr>;
          w2 = (if now w1 - lastSync (heap w1 t) > 3 * second then syncToRule t w1 else w1)
      in mu_Unlock (CounterMu t) w2)"

section \<open>TrafficConnWrapper and StatsListener\<close>

text \<open>
  \<open>Read\<close> and \<open>Write\<close> get the result \<open>(n, err)\<close> of the wrapped connection, count \<open>n\<close>
  when it is positive, and return the result unchanged.
\<close>

definition Read :: "TrafficConnWrapper \<Rightarrow> int \<times> error option \<Rightarrow> world \<Rightarrow> (int \<times> error option) \<times> world" where
  "Read c res w = (res, if 0 < fst res then CountDownload (c_counter c) (fst res) w else w)"

definition Write :: "TrafficConnWrapper \<Rightarrow> int \<times> error option \<Rightarrow> world \<Rightarrow> (int \<times> error option) \<times> world" where
  "Write c res w = (res, if 0 < fst res then CountUpload (c_counter c) (fst res) w else w)"

text \<open>\<open>Accept\<close>: the accepted connection (\<open>None\<close> for an error) wrapped with the listener's counter.\<close>

definition Accept :: "StatsListener \<Rightarrow> nat option \<Rightarrow> TrafficConnWrapper option" where
  "Accept l res = (case res of None \<Rightarrow> None
                   | Some conn \<Rightarrow> Some \<lparr>Conn = conn, c_counter = l_counter l\<rparr>)"

text \<open>
  \<open>Close\<close>: its goroutine only locks and unlocks the counter's mutex (the flush is
  commented away in the source), then the wrapped listener is closed, which frees the port.
\<close>

definition Close :: "StatsListener \<Rightarrow> world \<Rightarrow> world" where
  "Close l w = w\<lparr>ports := ports w - {lport (Listener l)}\<rparr>"

text \<open>
  \<open>net.Listen("tcp", ":port")\<close>: fails on a port outside 0..65535 and on a port in use;
  port 0 binds a port of the system's choice, which the model does not track.
\<close>

definition net_Listen :: "int \<Rightarrow> world \<Rightarrow> (NetListener \<times> world) option" where
  "net_Listen p w =
     (if p < 0 \<or> 65535 < p \<or> p \<in> ports w then None
      else if p = 0 then Some (\<lparr>lport = 0\<rparr>, w)
      else Some (\<lparr>lport = p\<rparr>, w\<lparr>ports := insert p (ports w)\<rparr>))"

section \<open>Persistence\<close>

text \<open>
  What \<open>encoding/json\<close> does to a Go string (a byte sequence) on the way to the file and
  back. \<open>utf8_len\<close> is the width of the UTF-8 encoding at the head of the bytes, 0 when
  there is none (\<open>utf8.DecodeRuneInString\<close> returning \<open>RuneError\<close> with size 1, or the
  empty string). \<open>json.MarshalIndent\<close> writes every byte that does not start a valid
  encoding as \<open>\ufffd\<close>, which \<open>json.Unmarshal\<close> reads as the three bytes EF BF BD; all
  other bytes are read back as they were. Numbers and booleans are read back unchanged.
\<close>

definition in_range :: "nat \<Rightarrow> nat \<Rightarrow> char \<Rightarrow> bool" where
  "in_range lo hi c = (lo \<le> of_char c \<and> (of_char c :: nat) \<le> hi)"

definition utf8_len :: "string \<Rightarrow> nat" where
  "utf8_len s =
     (case s of
        [] \<Rightarrow> 0
      | b # bs \<Rightarrow>
          let x = (of_char b :: nat) in
          if x < 128 then 1
          else if x < 194 then 0
          else if x < 224 then
            (case bs of
               c1 # _ \<Rightarrow> if in_range 128 191 c1 then 2 else 0
             | _ \<Rightarrow> 0)
          else if x < 240 then
            (case bs of
               c1 # c2 # _ \<Rightarrow>
                 if in_range (if x = 224 then 160 else 128) (if x = 237 then 159 else 191) c1
                    \<and> in_range 128 191 c2 then 3 else 0
             | _ \<Rightarrow> 0)
          else if x < 245 then
            (case bs of
               c1 # c2 # c3 # _ \<Rightarrow>
                 if in_range (if x = 240 then 144 else 128) (if x = 244 then 143 else 191) c1
                    \<and> in_range 128 191 c2 \<and> in_range 128 191 c3 then 4 else 0
             | _ \<Rightarrow> 0)
          else 0)"

fun json_string :: "string \<Rightarrow> string" where
  "json_string [] = []"
| "json_string (b # bs) =
     (if utf8_len (b # bs) = 0 then [CHR 0xEF, CHR 0xBF, CHR 0xBD] @ json_string bs
      else b # take (utf8_len (b # bs) - 1) bs @ json_string (drop (utf8_len (b # bs) - 1) bs))"

fun utf8_valid :: "string \<Rightarrow> bool" where
  "utf8_valid [] = True"
| "utf8_valid (b # bs) =
     (0 < utf8_len (b # bs) \<and> utf8_valid (drop (utf8_len (b # bs) - 1) bs))"

definition json_rule :: "SocksRule \<Rightarrow> SocksRule" where
  "json_rule r = r\<lparr>ID := json_string (ID r), Name := json_string (Name r),
                    Username := json_string (Username r), Password := json_string (Password r)\<rparr>"

definition rule_utf8 :: "SocksRule \<Rightarrow> bool" where
  "rule_utf8 r = (utf8_valid (ID r) \<and> utf8_valid (Name r) \<and> utf8_valid (Username r)
                  \<and> utf8_valid (Password r))"

text \<open>
  \<open>saveRules\<close>: every rule is written with \<open>Running = false\<close>, its strings as JSON
  writes them; a failed write leaves the file.
\<close>

definition saveRules :: "world \<Rightarrow> error option \<times> world" where
  "saveRules w =
     (let saved = map (\<lambda>rule. json_rule (rule\<lparr>Running := False\<rparr>)) (rules w)
      in if writable w then (None, w\<lparr>cfile := RuleFile saved\<rparr>) else (Some WriteFailed, w))"

text \<open>The loop of \<open>loadRules\<close> that names the rules with an empty id \<open>rule_<i+1>\<close>.\<close>

fun assignIDs :: "nat \<Rightarrow> SocksRule list \<Rightarrow> SocksRule list" where
  "assignIDs i [] = []"
| "assignIDs i (r # rs) =
     (if ID r = [] then r\<lparr>ID := rule_name (i + 1)\<rparr> else r) # assignIDs (Suc i) rs"

definition loadRules :: "world \<Rightarrow> error option \<times> world" where
  "loadRules w0 =
     (let w = mu_Lock AppMu w0 in
      case cfile w of
        NoFile \<Rightarrow> (None, mu_Unlock AppMu w)
      | Unreadable \<Rightarrow> (Some ReadFailed, mu_Unlock AppMu w)
      | Malformed \<Rightarrow> (Some ParseFailed, mu_Unlock AppMu w)
      | RuleFile loadedRules \<Rightarrow> (None, mu_Unlock AppMu (w\<lparr>rules := assignIDs 0 loadedRules\<rparr>)))"

section \<open>Server lifecycle\<close>

definition serverOpts :: "SocksRule \<Rightarrow> socks5_Option list" where
  "serverOpts rule =
     (if EnableUDP rule then [WithBindIP ''0.0.0.0'', WithRule True True True] else []) @
     (if NoAuth rule then [] else [WithCredential (Username rule) (Password rule)])"

text \<open>
  \<open>startServerLocked\<close>. The UDP preflight opens and closes a socket and only prints; the
  accept loop \<open>go server.Serve(statsListener)\<close> runs in the library.
\<close>

definition startServerLocked :: "string \<Rightarrow> world \<Rightarrow> bool \<times> world" where
  "startServerLocked rid w =
     (case findRule (rules w) rid of
        None \<Rightarrow> (False, w)
      | Some i \<Rightarrow>
          if Running (rules w ! i) then (True, w)
          else
            let (t, w1) = NewTrafficCounter rid w;
                w2 = w1\<lparr>counters := (counters w1)(rid \<mapsto> t)\<rparr>;
                server = serverOpts (rules w2 ! i)
            in case net_Listen (Port (rules w2 ! i)) w2 of
                 None \<Rightarrow> (False, w2)
               | Some (listener, w3) \<Rightarrow>
                   let statsListener = \<lparr>Listener = listener, l_counter = t, l_ruleID = rid\<rparr>;
                       w4 = w3\<lparr>servers := (servers w3)(rid \<mapsto> server),
                              listeners := (listeners w3)(rid \<mapsto> statsListener)\<rparr>;
                       w5 = w4\<lparr>rules := (rules w4)[i := (rules w4 ! i)\<lparr>Running := True\<rparr>]\<rparr>
                   in (True, snd (saveRules w5)))"

definition StartServer :: "string \<Rightarrow> world \<Rightarrow> bool \<times> world" where
  "StartServer rid w0 =
     (let (ok, w) = startServerLocked rid (mu_Lock AppMu w0) in (ok, mu_Unlock AppMu w))"

text \<open>
  Lines 489 to 502 of \<open>stopServerLocked\<close>: with the counter's mutex held, the accumulators
  are added to the first rule with the id when one of them is positive. Nothing is zeroed.
\<close>

definition drainCounter :: "string \<Rightarrow> world \<Rightarrow> world" where
  "drainCounter rid w =
     (case counters w rid of
        None \<Rightarrow> w
      | Some t \<Rightarrow>
          let w1 = mu_Lock (CounterMu t) w;
              c = heap w1 t;
              w2 = (if 0 <s uploadBytes c \<or> 0 <s downloadBytes c then
                      (case findRule (rules w1) rid of
                         None \<Rightarrow> w1
                       | Some i \<Rightarrow>
                           w1\<lparr>rules := (rules w1)[i := (rules w1 ! i)
                                 \<lparr>UploadBytes := UploadBytes (rules w1 ! i) + uploadBytes c,
                                  DownloadBytes := DownloadBytes (rules w1 ! i) + downloadBytes c\<rparr>]\<rparr>)
                    else w1)
          in mu_Unlock (CounterMu t) w2)"

definition stopServerLocked :: "string \<Rightarrow> world \<Rightarrow> bool \<times> world" where
  "stopServerLocked rid w =
     (case findRule (rules w) rid of
        None \<Rightarrow> (False, w)
      | Some i \<Rightarrow>
          if Running (rules w ! i) then
            let w1 = w\<lparr>rules := (rules w)[i := (rules w ! i)\<lparr>Running := False\<rparr>]\<rparr>;
                w2 = drainCounter rid w1;
                w3 = w2\<lparr>counters := (counters w2)(rid := None),
                       servers := (servers w2)(rid := None)\<rparr>;
                w4 = (case listeners w3 rid of
                        None \<Rightarrow> w3
                      | Some l \<Rightarrow> (Close l w3)\<lparr>listeners := (listeners w3)(rid := None)\<rparr>)
            in (True, snd (saveRules w4))
          else (False, w))"

definition StopServer :: "string \<Rightarrow> world \<Rightarrow> bool \<times> world" where
  "StopServer rid w0 =
     (let (ok, w) = stopServerLocked rid (mu_Lock AppMu w0) in (ok, mu_Unlock AppMu w))"

section \<open>Rule registry\<close>

text \<open>\<open>NewApp\<close>, on a host with no port in use, no configuration file and the clock at 0.\<close>

definition NewApp :: world where
  "NewApp = \<lparr>rules = [], servers = Map.empty, listeners = Map.empty, counters = Map.empty,
     heap = (\<lambda>_. \<lparr>uploadBytes = 0, downloadBytes = 0, ruleID = [], lastSync = 0\<rparr>),
     nextAddr = 0, now = 0, ports = {}, cfile = NoFile, writable = True, asyncSaves = 0,
     trace = []\<rparr>"

definition GetRules :: "world \<Rightarrow> SocksRule list \<times> world" where
  "GetRules w0 = (let w = mu_Lock AppMu w0 in (rules w, mu_Unlock AppMu w))"

definition AddRule :: "SocksRule \<Rightarrow> world \<Rightarrow> string \<times> world" where
  "AddRule rule w0 =
     (let w = mu_Lock AppMu w0;
          rule1 = (if ID rule = [] then rule\<lparr>ID := rule_name (length (rules w) + 1)\<rparr> else rule);
          w1 = w\<lparr>rules := rules w @ [rule1]\<rparr>;
          w2 = snd (saveRules w1)
      in (ID rule1, mu_Unlock AppMu w2))"

definition UpdateRule :: "SocksRule \<Rightarrow> world \<Rightarrow> bool \<times> world" where
  "UpdateRule rule w0 =
     (let w = mu_Lock AppMu w0 in
      case findRule (rules w) (ID rule) of
        None \<Rightarrow> (False, mu_Unlock AppMu w)
      | Some i \<Rightarrow>
          let originalUploadBytes = UploadBytes (rules w ! i);
              originalDownloadBytes = DownloadBytes (rules w ! i);
              wasRunning = Running (rules w ! i);
              w1 = (if wasRunning then snd (stopServerLocked (ID rule) w) else w);
              rule1 = rule\<lparr>UploadBytes := originalUploadBytes,
                           DownloadBytes := originalDownloadBytes\<rparr>;
              w2 = w1\<lparr>rules := (rules w1)[i := rule1]\<rparr>;
              w3 = (if wasRunning \<and> Running rule1 then snd (startServerLocked (ID rule1) w2) else w2);
              w4 = snd (saveRules w3)
          in (True, mu_Unlock AppMu w4))"

definition DeleteRule :: "string \<Rightarrow> world \<Rightarrow> bool \<times> world" where
  "DeleteRule rid w0 =
     (let w = mu_Lock AppMu w0 in
      case findRule (rules w) rid of
        None \<Rightarrow> (False, mu_Unlock AppMu w)
      | Some i \<Rightarrow>
          let w1 = (if Running (rules w ! i) then snd (stopServerLocked rid w) else w);
              w2 = w1\<lparr>rules := take i (rules w1) @ drop (Suc i) (rules w1)\<rparr>;
              w3 = snd (saveRules w2)
          in (True, mu_Unlock AppMu w3))"

definition GetTrafficStats :: "string \<Rightarrow> world \<Rightarrow> (error + int64 \<times> int64) \<times> world" where
  "GetTrafficStats rid w0 =
     (let w = mu_Lock AppMu w0 in
      case findRule (rules w) rid of
        None \<Rightarrow> (Inl (RuleNotFound rid), mu_Unlock AppMu w)
      | Some i \<Rightarrow> (Inr (UploadBytes (rules w ! i), DownloadBytes (rules w ! i)), mu_Unlock AppMu w))"

definition ResetTrafficStats :: "string \<Rightarrow> world \<Rightarrow> error option \<times> world" where
  "ResetTrafficStats rid w0 =
     (let w = mu_Lock AppMu w0 in
      case findRule (rules w) rid of
        None \<Rightarrow> (Some (RuleNotFound rid), mu_Unlock AppMu w)
      | Some i \<Rightarrow>
          let w1 = w\<lparr>rules := (rules w)[i := (rules w ! i)\<lparr>UploadBytes := 0, DownloadBytes := 0\<rparr>]\<rparr>;
              w2 = snd (saveRules w1)
          in (None, mu_Unlock AppMu w2))"

section \<open>The states of the App\<close>

text \<open>
  The worlds the program can be in: a new App, and what the exported methods, the reads and
  writes of wrapped connections (on a counter that has been allocated), the spawned
  \<open>saveRules\<close>, the clock and the host (other processes binding ports, the file being
  edited or made read-only) make of one.
\<close>

inductive reachable :: "world \<Rightarrow> bool" where
  by_new: "reachable NewApp"
| by_host: "reachable w \<Longrightarrow> reachable (w\<lparr>ports := P, cfile := f, writable := b\<rparr>)"
| by_clock: "reachable w \<Longrightarrow> 0 \<le> d \<Longrightarrow> reachable (advance d w)"
| by_load: "reachable w \<Longrightarrow> reachable (snd (loadRules w))"
| by_save: "reachable w \<Longrightarrow> reachable (snd (saveRules w))"
| by_list: "reachable w \<Longrightarrow> reachable (snd (GetRules w))"
| by_add: "reachable w \<Longrightarrow> reachable (snd (AddRule rule w))"
| by_update: "reachable w \<Longrightarrow> reachable (snd (UpdateRule rule w))"
| by_delete: "reachable w \<Longrightarrow> reachable (snd (DeleteRule rid w))"
| by_start: "reachable w \<Longrightarrow> reachable (snd (StartServer rid w))"
| by_stop: "reachable w \<Longrightarrow> reachable (snd (StopServer rid w))"
| by_stats: "reachable w \<Longrightarrow> reachable (snd (GetTrafficStats rid w))"
| by_reset: "reachable w \<Longrightarrow> reachable (snd (ResetTrafficStats rid w))"
| by_read: "reachable w \<Longrightarrow> c_counter c < nextAddr w \<Longrightarrow> reachable (snd (Read c res w))"
| by_write: "reachable w \<Longrightarrow> c_counter c < nextAddr w \<Longrightarrow> reachable (snd (Write c res w))"

section \<open>Traffic on a connection\<close>

text \<open>
  What the proxy library does with one wrapped connection, as a list of events: a write
  that returned \<open>n\<close>, a read that returned \<open>n\<close>, \<open>d\<close> nanoseconds passing. \<open>uploaded\<close> and
  \<open>downloaded\<close> are the bytes the wrapper counts for the events.
\<close>

datatype io = Written int | ReadIn int | Elapsed int

fun traffic :: "TrafficConnWrapper \<Rightarrow> io list \<Rightarrow> world \<Rightarrow> world" where
  "traffic c [] w = w"
| "traffic c (Written n # es) w = traffic c es (snd (Write c (n, None) w))"
| "traffic c (ReadIn n # es) w = traffic c es (snd (Read c (n, None) w))"
| "traffic c (Elapsed d # es) w = traffic c es (advance d w)"

fun uploaded :: "io list \<Rightarrow> int64" where
  "uploaded [] = 0"
| "uploaded (Written n # es) = (if 0 < n then word_of_int n else 0) + uploaded es"
| "uploaded (e # es) = uploaded es"

fun downloaded :: "io list \<Rightarrow> int64" where
  "downloaded [] = 0"
| "downloaded (ReadIn n # es) = (if 0 < n then word_of_int n else 0) + downloaded es"
| "downloaded (e # es) = downloaded es"

section \<open>Lock discipline\<close>

text \<open>
  Predicates on a log of mutex calls, read with the list of mutexes held so far:
  \<open>app_under_counter\<close> holds when the App mutex is taken while a counter mutex is held,
  \<open>counter_under_app\<close> when a counter mutex is taken while the App mutex is held.
\<close>

fun holds_counter :: "mutex list \<Rightarrow> bool" where
  "holds_counter [] = False"
| "holds_counter (AppMu # ms) = holds_counter ms"
| "holds_counter (CounterMu t # ms) = True"

fun app_under_counter :: "mutex list \<Rightarrow> lock_event list \<Rightarrow> bool" where
  "app_under_counter held [] = False"
| "app_under_counter held (Acquire m # es) =
     ((m = AppMu \<and> holds_counter held) \<or> app_under_counter (m # held) es)"
| "app_under_counter held (Release m # es) = app_under_counter (remove1 m held) es"

fun counter_under_app :: "mutex list \<Rightarrow> lock_event list \<Rightarrow> bool" where
  "counter_under_app held [] = False"
| "counter_under_app held (Acquire m # es) =
     ((m \<noteq> AppMu \<and> AppMu \<in> set held) \<or> counter_under_app (m # held) es)"
| "counter_under_app held (Release m # es) = counter_under_app (remove1 m held) es"

text \<open>
  Two goroutines, each with the mutex calls it has still to make, and the mutexes held by
  either. \<open>sched\<close> runs a schedule (\<open>False\<close>: the first goroutine makes its next call,
  \<open>True\<close>: the second); a schedule that takes a held mutex is not a run (\<open>None\<close>).
  A goroutine is \<open>blocked\<close> when its next call takes a held mutex.
\<close>

fun blocked :: "mutex list \<Rightarrow> lock_event list \<Rightarrow> bool" where
  "blocked held (Acquire m # es) = (m \<in> set held)"
| "blocked held es = False"

fun sched :: "bool list \<Rightarrow> mutex list \<times> lock_event list \<times> lock_event list \<Rightarrow>
    (mutex list \<times> lock_event list \<times> lock_event list) option" where
  "sched [] cfg = Some cfg"
| "sched (False # bs) (held, Acquire m # t1, t2) =
     (if m \<in> set held then None else sched bs (m # held, t1, t2))"
| "sched (False # bs) (held, Release m # t1, t2) = sched bs (remove1 m held, t1, t2)"
| "sched (False # bs) (held, [], t2) = None"
| "sched (True # bs) (held, t1, Acquire m # t2) =
     (if m \<in> set held then None else sched bs (m # held, t1, t2))"
| "sched (True # bs) (held, t1, Release m # t2) = sched bs (remove1 m held, t1, t2)"
| "sched (True # bs) (held, t1, []) = None"

section \<open>Concrete runs\<close>

text \<open>
  The rule of the specification's scenario (name test, port 1080, no authentication), added
  with a blank id to a new App and started; one connection accepted by its listener.
\<close>

definition test_rule :: SocksRule where
  "test_rule = \<lparr>ID = [], Name = ''test'', Port = 1080, Username = [], Password = [],
     NoAuth = True, Running = False, EnableUDP = False, UploadBytes = 0, DownloadBytes = 0\<rparr>"

definition w_added :: world where
  "w_added = snd (AddRule test_rule NewApp)"

definition w_running :: world where
  "w_running = snd (StartServer ''rule_1'' w_added)"

definition listener1 :: StatsListener where
  "listener1 = \<lparr>Listener = \<lparr>lport = 1080\<rparr>, l_counter = 0, l_ruleID = ''rule_1''\<rparr>"

definition conn1 :: TrafficConnWrapper where
  "conn1 = \<lparr>Conn = 0, c_counter = 0\<rparr>"

text \<open>
  One second after the start 100 bytes are written to the connection (counted, not yet
  flushed); the server is stopped; 4 seconds later the connection, still open, writes 1 byte.
\<close>

definition w_written :: world where
  "w_written = snd (Write conn1 (100, None) (advance second w_running))"

definition w_stopped :: world where
  "w_stopped = snd (StopServer ''rule_1'' w_written)"

definition w_late :: world where
  "w_late = snd (Write conn1 (1, None) (advance (4 * second) w_stopped))"

text \<open>The added rule on a host where another process holds port 1080.\<close>

definition w_port_taken :: world where
  "w_port_taken = w_added\<lparr>ports := {1080}\<rparr>"

text \<open>
  The running rule after a flush of 100 bytes, and the update the front end sends for it:
  the same id, marked running, a new port.
\<close>

definition w_flushed :: world where
  "w_flushed = snd (Write conn1 (100, None) (advance (4 * second) w_running))"

definition new_rule :: SocksRule where
  "new_rule = \<lparr>ID = ''rule_1'', Name = ''test'', Port = 1081, Username = [], Password = [],
     NoAuth = True, Running = True, EnableUDP = False, UploadBytes = 999, DownloadBytes = 999\<rparr>"

text \<open>Two rules; the second one started; the first one deleted.\<close>

definition w_two :: world where
  "w_two = snd (AddRule (test_rule\<lparr>Port := 1081\<rparr>) w_added)"

definition w_second_running :: world where
  "w_second_running = snd (StartServer ''rule_2'' w_two)"

definition w_first_deleted :: world where
  "w_first_deleted = snd (DeleteRule ''rule_1'' w_two)"

text \<open>A rule whose name is the single byte FF, which is not UTF-8, added to a new App.\<close>

definition w_bad :: world where
  "w_bad = snd (AddRule (test_rule\<lparr>Name := [CHR 0xFF]\<rparr>) NewApp)"

text \<open>The counter due for a flush (4 seconds after \<open>lastSync\<close>), with an empty log.\<close>

definition w_due :: world where
  "w_due = (advance (4 * second) w_running)\<lparr>trace := []\<rparr>"

text \<open>\<open>n\<close> flushes in a row: each time 4 seconds pass and one byte is counted.\<close>

primrec flushes :: "nat \<Rightarrow> addr \<Rightarrow> world \<Rightarrow> world" where
  "flushes 0 t w = w"
| "flushes (Suc n) t w = flushes n t (CountUpload t 1 (advance (4 * second) w))"

section \<open>Facts about the helpers\<close>

lemma findRule_bound: "findRule rs rid = Some i \<Longrightarrow> i < length rs"
  by (induction rs arbitrary: i) (auto split: if_splits)

lemma findRule_ID: "findRule rs rid = Some i \<Longrightarrow> ID (rs ! i) = rid"
  by (induction rs arbitrary: i) (auto split: if_splits)

lemma findRule_map_ID: "map ID rs = map ID rs' \<Longrightarrow> findRule rs rid = findRule rs' rid"
proof (induction rs arbitrary: rs')
  case Nil
  then show ?case by simp
next
  case (Cons r rs)
  then obtain r' rs'' where "rs' = r' # rs''" by (cases rs') auto
  with Cons show ?case by auto
qed

lemma findRule_update:
  "i < length rs \<Longrightarrow> ID r = ID (rs ! i) \<Longrightarrow> findRule (rs[i := r]) rid = findRule rs rid"
  by (rule findRule_map_ID) (simp add: map_update list_update_same_conv)

lemma length_assignIDs: "length (assignIDs i rs) = length rs"
  by (induction rs arbitrary: i) auto

lemma nth_assignIDs:
  "k < length rs \<Longrightarrow>
   assignIDs i rs ! k = (if ID (rs ! k) = [] then (rs ! k)\<lparr>ID := rule_name (i + k + 1)\<rparr> else rs ! k)"
proof (induction rs arbitrary: i k)
  case Nil
  then show ?case by simp
next
  case (Cons r rs)
  show ?case
  proof (cases k)
    case 0
    then show ?thesis by simp
  next
    case (Suc j)
    with Cons.prems have "j < length rs" by simp
    from Cons.IH [OF this, of "Suc i"] Suc show ?thesis by simp
  qed
qed

lemma assignIDs_id: "\<forall>r \<in> set rs. ID r \<noteq> [] \<Longrightarrow> assignIDs i rs = rs"
  by (induction rs arbitrary: i) auto

section \<open>Facts about the operations\<close>

lemma startServerLocked_running:
  "findRule (rules w) rid = Some i \<Longrightarrow> Running (rules w ! i) \<Longrightarrow> startServerLocked rid w = (True, w)"
  by (simp add: startServerLocked_def)

lemma drainCounter_live:
  assumes "findRule (rules w) rid = Some i" and "counters w rid = Some t"
      and "0 <s uploadBytes (heap w t) \<or> 0 <s downloadBytes (heap w t)"
  shows "drainCounter rid w =
     w\<lparr>rules := (rules w)[i := (rules w ! i)
            \<lparr>UploadBytes := UploadBytes (rules w ! i) + uploadBytes (heap w t),
             DownloadBytes := DownloadBytes (rules w ! i) + downloadBytes (heap w t)\<rparr>],
       trace := trace w @ [Acquire (CounterMu t), Release (CounterMu t)]\<rparr>"
  using assms by (auto simp add: drainCounter_def mu_Lock_def mu_Unlock_def Let_def)

lemma stopServerLocked_live:
  assumes found: "findRule (rules w) rid = Some i" and running: "Running (rules w ! i)"
      and live: "counters w rid = Some t"
      and unflushed: "0 <s uploadBytes (heap w t) \<or> 0 <s downloadBytes (heap w t)"
  shows "fst (stopServerLocked rid w) = True"
    and "rules (snd (stopServerLocked rid w)) = (rules w)[i := (rules w ! i)
            \<lparr>Running := False,
             UploadBytes := UploadBytes (rules w ! i) + uploadBytes (heap w t),
             DownloadBytes := DownloadBytes (rules w ! i) + downloadBytes (heap w t)\<rparr>]"
    and "heap (snd (stopServerLocked rid w)) = heap w"
    and "now (snd (stopServerLocked rid w)) = now w"
    and "counters (snd (stopServerLocked rid w)) = (counters w)(rid := None)"
    and "listeners (snd (stopServerLocked rid w)) = (listeners w)(rid := None)"
proof -
  let ?w1 = "w\<lparr>rules := (rules w)[i := (rules w ! i)\<lparr>Running := False\<rparr>]\<rparr>"
  have i: "i < length (rules w)" using found by (rule findRule_bound)
  have f1: "findRule (rules ?w1) rid = Some i"
    using found i by (simp add: findRule_update)
  have d: "drainCounter rid ?w1 =
     ?w1\<lparr>rules := (rules ?w1)[i := (rules ?w1 ! i)
            \<lparr>UploadBytes := UploadBytes (rules ?w1 ! i) + uploadBytes (heap ?w1 t),
             DownloadBytes := DownloadBytes (rules ?w1 ! i) + downloadBytes (heap ?w1 t)\<rparr>],
       trace := trace ?w1 @ [Acquire (CounterMu t), Release (CounterMu t)]\<rparr>"
    by (rule drainCounter_live [OF f1]) (use live unflushed in simp_all)
  show "fst (stopServerLocked rid w) = True"
    using found running by (simp add: stopServerLocked_def Let_def)
  show "rules (snd (stopServerLocked rid w)) = (rules w)[i := (rules w ! i)
            \<lparr>Running := False,
             UploadBytes := UploadBytes (rules w ! i) + uploadBytes (heap w t),
             DownloadBytes := DownloadBytes (rules w ! i) + downloadBytes (heap w t)\<rparr>]"
    using found running i
    by (simp add: stopServerLocked_def Let_def d saveRules_def Close_def split: option.split)
  show "heap (snd (stopServerLocked rid w)) = heap w"
    using found running i
    by (simp add: stopServerLocked_def Let_def d saveRules_def Close_def split: option.split)
  show "now (snd (stopServerLocked rid w)) = now w"
    using found running i
    by (simp add: stopServerLocked_def Let_def d saveRules_def Close_def split: option.split)
  show "counters (snd (stopServerLocked rid w)) = (counters w)(rid := None)"
    using found running i
    by (simp add: stopServerLocked_def Let_def d saveRules_def Close_def split: option.split)
  show "listeners (snd (stopServerLocked rid w)) = (listeners w)(rid := None)"
    using found running i
    by (auto simp add: stopServerLocked_def Let_def d saveRules_def Close_def split: option.split)
qed

lemma syncToRule_found:
  assumes "findRule (rules w) (ruleID (heap w t)) = Some i"
  shows "rules (syncToRule t w) = (rules w)[i := (rules w ! i)
            \<lparr>UploadBytes := UploadBytes (rules w ! i) + uploadBytes (heap w t),
             DownloadBytes := DownloadBytes (rules w ! i) + downloadBytes (heap w t)\<rparr>]"
    and "heap (syncToRule t w) = (heap w)(t := (heap w t)\<lparr>uploadBytes := 0, downloadBytes := 0, lastSync := now w\<rparr>)"
    and "asyncSaves (syncToRule t w) = (if i mod 10 = 0 then Suc (asyncSaves w) else asyncSaves w)"
  using assms by (simp_all add: syncToRule_def mu_Lock_def mu_Unlock_def Let_def)

lemma syncToRule_now: "now (syncToRule t w) = now w"
  by (simp add: syncToRule_def mu_Lock_def mu_Unlock_def Let_def split: option.split)

lemma flush_step:
  assumes f: "findRule (rules w) (ruleID (heap w t)) = Some i"
      and ls: "lastSync (heap w t) \<le> now w"
  shows "findRule (rules (CountUpload t 1 (advance (4 * second) w)))
           (ruleID (heap (CountUpload t 1 (advance (4 * second) w)) t)) = Some i"
    and "lastSync (heap (CountUpload t 1 (advance (4 * second) w)) t)
           \<le> now (CountUpload t 1 (advance (4 * second) w))"
    and "asyncSaves (CountUpload t 1 (advance (4 * second) w)) =
           (if i mod 10 = 0 then Suc (asyncSaves w) else asyncSaves w)"
    and "uploadBytes (heap (CountUpload t 1 (advance (4 * second) w)) t) = 0"
    and "UploadBytes (rules (CountUpload t 1 (advance (4 * second) w)) ! i) =
           UploadBytes (rules w ! i) + uploadBytes (heap w t) + 1"
proof -
  let ?w2 = "w\<lparr>now := now w + 4 * second, trace := trace w @ [Acquire (CounterMu t)],
       heap := (heap w)(t := (heap w t)\<lparr>uploadBytes := uploadBytes (heap w t) + 1\<rparr>)\<rparr>"
  have i: "i < length (rules w)" using f by (rule findRule_bound)
  have due: "3 * second < now w + 4 * second - lastSync (heap w t)"
    using ls by (simp add: second_def)
  have cu: "CountUpload t 1 (advance (4 * second) w) = mu_Unlock (CounterMu t) (syncToRule t ?w2)"
    using due by (simp add: CountUpload_def advance_def mu_Lock_def Let_def)
  have f2: "findRule (rules ?w2) (ruleID (heap ?w2 t)) = Some i" using f by simp
  note s = syncToRule_found [OF f2]
  show "findRule (rules (CountUpload t 1 (advance (4 * second) w)))
           (ruleID (heap (CountUpload t 1 (advance (4 * second) w)) t)) = Some i"
    using f i by (simp only: cu) (simp add: mu_Unlock_def s findRule_update)
  show "lastSync (heap (CountUpload t 1 (advance (4 * second) w)) t)
           \<le> now (CountUpload t 1 (advance (4 * second) w))"
    by (simp only: cu) (simp add: mu_Unlock_def s syncToRule_now)
  show "asyncSaves (CountUpload t 1 (advance (4 * second) w)) =
           (if i mod 10 = 0 then Suc (asyncSaves w) else asyncSaves w)"
    by (simp only: cu) (simp add: mu_Unlock_def s)
  show "uploadBytes (heap (CountUpload t 1 (advance (4 * second) w)) t) = 0"
    by (simp only: cu) (simp add: mu_Unlock_def s)
  show "UploadBytes (rules (CountUpload t 1 (advance (4 * second) w)) ! i) =
           UploadBytes (rules w ! i) + uploadBytes (heap w t) + 1"
    using i by (simp only: cu) (simp add: mu_Unlock_def s)
qed

lemma flushes_saves:
  assumes "findRule (rules w) (ruleID (heap w t)) = Some i"
      and "lastSync (heap w t) \<le> now w"
      and "uploadBytes (heap w t) = 0"
  shows "asyncSaves (flushes n t w) = asyncSaves w + (if i mod 10 = 0 then n else 0) \<and>
         UploadBytes (rules (flushes n t w) ! i) = UploadBytes (rules w ! i) + of_nat n"
  using assms
proof (induction n arbitrary: w)
  case 0
  then show ?case by simp
next
  case (Suc n)
  let ?w' = "CountUpload t 1 (advance (4 * second) w)"
  note st = flush_step [OF Suc.prems(1) Suc.prems(2)]
  from Suc.IH [OF st(1) st(2) st(4)] show ?case
    by (simp add: st(3) st(5) Suc.prems(3))
qed

lemma sless_zero_cases: "\<not> (x::int64) <s 0 \<Longrightarrow> \<not> 0 <s x \<Longrightarrow> x = 0"
  by simp

lemma int64_signed_order: "\<not> 0 <s (- 1 :: int64)" "0 <s (100 :: int64)" "(2 ^ 63 :: int64) <s 0"
  by code_simp+

lemma startServerLocked_bind_fails:
  assumes "findRule (rules w) rid = Some i" and "\<not> Running (rules w ! i)"
      and "Port (rules w ! i) < 0 \<or> 65535 < Port (rules w ! i) \<or> Port (rules w ! i) \<in> ports w"
  shows "fst (startServerLocked rid w) = False"
    and "counters (snd (startServerLocked rid w)) = (counters w)(rid \<mapsto> nextAddr w)"
    and "servers (snd (startServerLocked rid w)) = servers w"
    and "listeners (snd (startServerLocked rid w)) = listeners w"
    and "rules (snd (startServerLocked rid w)) = rules w"
  using assms
  by (auto simp add: startServerLocked_def NewTrafficCounter_def net_Listen_def Let_def)

lemma drainCounter_frame:
  "length (rules (drainCounter rid w)) = length (rules w)"
  "map ID (rules (drainCounter rid w)) = map ID (rules w)"
  "map Running (rules (drainCounter rid w)) = map Running (rules w)"
  "listeners (drainCounter rid w) = listeners w"
  "servers (drainCounter rid w) = servers w"
  "counters (drainCounter rid w) = counters w"
  "heap (drainCounter rid w) = heap w"
  "now (drainCounter rid w) = now w"
  "ports (drainCounter rid w) = ports w"
  by (auto simp add: drainCounter_def mu_Lock_def mu_Unlock_def Let_def map_update
      list_update_same_conv dest: findRule_bound split: option.split)

lemma stopServerLocked_frame:
  assumes found: "findRule (rules w) rid = Some i" and running: "Running (rules w ! i)"
  shows "fst (stopServerLocked rid w) = True"
    and "length (rules (snd (stopServerLocked rid w))) = length (rules w)"
    and "map ID (rules (snd (stopServerLocked rid w))) = map ID (rules w)"
    and "listeners (snd (stopServerLocked rid w)) = (listeners w)(rid := None)"
    and "servers (snd (stopServerLocked rid w)) = (servers w)(rid := None)"
    and "counters (snd (stopServerLocked rid w)) = (counters w)(rid := None)"
    and "heap (snd (stopServerLocked rid w)) = heap w"
    and "now (snd (stopServerLocked rid w)) = now w"
proof -
  have i: "i < length (rules w)" using found by (rule findRule_bound)
  let ?w1 = "w\<lparr>rules := (rules w)[i := (rules w ! i)\<lparr>Running := False\<rparr>]\<rparr>"
  have ids: "map ID (rules ?w1) = map ID (rules w)"
    using i by (simp add: map_update list_update_same_conv)
  show "fst (stopServerLocked rid w) = True"
    using found running by (simp add: stopServerLocked_def Let_def)
  show "length (rules (snd (stopServerLocked rid w))) = length (rules w)"
    using found running
    by (simp add: stopServerLocked_def Let_def saveRules_def Close_def drainCounter_frame
        split: option.split)
  show "map ID (rules (snd (stopServerLocked rid w))) = map ID (rules w)"
    using found running ids
    by (simp add: stopServerLocked_def Let_def saveRules_def Close_def drainCounter_frame
        split: option.split)
  show "listeners (snd (stopServerLocked rid w)) = (listeners w)(rid := None)"
    using found running
    by (auto simp add: stopServerLocked_def Let_def saveRules_def Close_def drainCounter_frame
        split: option.split)
  show "servers (snd (stopServerLocked rid w)) = (servers w)(rid := None)"
    using found running
    by (simp add: stopServerLocked_def Let_def saveRules_def Close_def drainCounter_frame
        split: option.split)
  show "counters (snd (stopServerLocked rid w)) = (counters w)(rid := None)"
    using found running
    by (simp add: stopServerLocked_def Let_def saveRules_def Close_def drainCounter_frame
        split: option.split)
  show "heap (snd (stopServerLocked rid w)) = heap w"
    using found running
    by (simp add: stopServerLocked_def Let_def saveRules_def Close_def drainCounter_frame
        split: option.split)
  show "now (snd (stopServerLocked rid w)) = now w"
    using found running
    by (simp add: stopServerLocked_def Let_def saveRules_def Close_def drainCounter_frame
        split: option.split)
qed

lemma UpdateRule_never_restarts:
  assumes found: "findRule (rules w) (ID rule) = Some i" and running: "Running (rules w ! i)"
      and marked: "Running rule"
  shows "fst (UpdateRule rule w) = True"
    and "rules (snd (UpdateRule rule w)) ! i =
           rule\<lparr>UploadBytes := UploadBytes (rules w ! i), DownloadBytes := DownloadBytes (rules w ! i)\<rparr>"
    and "listeners (snd (UpdateRule rule w)) (ID rule) = None"
    and "servers (snd (UpdateRule rule w)) (ID rule) = None"
    and "counters (snd (UpdateRule rule w)) (ID rule) = None"
proof -
  let ?w = "mu_Lock AppMu w"
  have found': "findRule (rules ?w) (ID rule) = Some i" and running': "Running (rules ?w ! i)"
    using found running by (simp_all add: mu_Lock_def)
  have i: "i < length (rules w)" using found by (rule findRule_bound)
  note st = stopServerLocked_frame [OF found' running']
  let ?w1 = "snd (stopServerLocked (ID rule) ?w)"
  let ?rule1 = "rule\<lparr>UploadBytes := UploadBytes (rules w ! i), DownloadBytes := DownloadBytes (rules w ! i)\<rparr>"
  let ?w2 = "?w1\<lparr>rules := (rules ?w1)[i := ?rule1]\<rparr>"
  have "length (rules ?w) = length (rules w)" by (simp add: mu_Lock_def)
  with i st(2) have len: "i < length (rules ?w1)" by simp
  have "map ID (rules ?w) = map ID (rules w)" by (simp add: mu_Lock_def)
  with st(3) have ids1: "map ID (rules ?w1) = map ID (rules w)" by simp
  have "map ID (rules ?w2) = map ID (rules w)"
  proof -
    have "ID ?rule1 = ID (rules w ! i)" using found by (simp add: findRule_ID)
    then have "map ID ((rules ?w1)[i := ?rule1]) = (map ID (rules ?w1))[i := ID (rules w ! i)]"
      by (simp add: map_update)
    also have "\<dots> = map ID (rules w)"
      using i by (simp add: ids1 list_update_same_conv)
    finally show ?thesis by simp
  qed
  then have "findRule (rules ?w2) (ID rule) = findRule (rules w) (ID rule)"
    by (rule findRule_map_ID)
  with found have f2: "findRule (rules ?w2) (ID rule) = Some i" by simp
  have r2: "Running (rules ?w2 ! i)" using len marked by simp
  have noop: "startServerLocked (ID rule) ?w2 = (True, ?w2)"
    using f2 r2 by (rule startServerLocked_running)
  have u: "UpdateRule rule w = (True, mu_Unlock AppMu (snd (saveRules ?w2)))"
    using found' running' marked noop
    by (simp add: UpdateRule_def Let_def mu_Lock_def)
  show "fst (UpdateRule rule w) = True" by (simp add: u)
  show "rules (snd (UpdateRule rule w)) ! i = ?rule1"
    using len by (simp add: u mu_Unlock_def saveRules_def)
  show "listeners (snd (UpdateRule rule w)) (ID rule) = None"
    by (simp add: u mu_Unlock_def saveRules_def st)
  show "servers (snd (UpdateRule rule w)) (ID rule) = None"
    by (simp add: u mu_Unlock_def saveRules_def st)
  show "counters (snd (UpdateRule rule w)) (ID rule) = None"
    by (simp add: u mu_Unlock_def saveRules_def st)
qed

lemma CountUpload_conserves:
  assumes f: "findRule (rules w) (ruleID (heap w t)) = Some i"
  shows "findRule (rules (CountUpload t n w)) (ruleID (heap (CountUpload t n w) t)) = Some i"
    and "ruleID (heap (CountUpload t n w) t) = ruleID (heap w t)"
    and "UploadBytes (rules (CountUpload t n w) ! i) + uploadBytes (heap (CountUpload t n w) t) =
           UploadBytes (rules w ! i) + uploadBytes (heap w t) + word_of_int n"
    and "DownloadBytes (rules (CountUpload t n w) ! i) + downloadBytes (heap (CountUpload t n w) t) =
           DownloadBytes (rules w ! i) + downloadBytes (heap w t)"
    and "Running (rules (CountUpload t n w) ! i) = Running (rules w ! i)"
    and "counters (CountUpload t n w) = counters w"
proof -
  let ?w1 = "w\<lparr>trace := trace w @ [Acquire (CounterMu t)],
       heap := (heap w)(t := (heap w t)\<lparr>uploadBytes := uploadBytes (heap w t) + word_of_int n\<rparr>)\<rparr>"
  have i: "i < length (rules w)" using f by (rule findRule_bound)
  have f1: "findRule (rules ?w1) (ruleID (heap ?w1 t)) = Some i" using f by simp
  note s = syncToRule_found [OF f1]
  have cu: "CountUpload t n w =
      mu_Unlock (CounterMu t) (if 3 * second < now w - lastSync (heap w t) then syncToRule t ?w1 else ?w1)"
    by (simp add: CountUpload_def mu_Lock_def Let_def)
  have cs: "counters (syncToRule t ?w1) = counters w"
    by (simp add: syncToRule_def mu_Lock_def mu_Unlock_def Let_def split: option.split)
  show "findRule (rules (CountUpload t n w)) (ruleID (heap (CountUpload t n w) t)) = Some i"
    using f i by (simp only: cu) (simp add: mu_Unlock_def s findRule_update)
  show "ruleID (heap (CountUpload t n w) t) = ruleID (heap w t)"
    by (simp only: cu) (simp add: mu_Unlock_def s)
  show "UploadBytes (rules (CountUpload t n w) ! i) + uploadBytes (heap (CountUpload t n w) t) =
           UploadBytes (rules w ! i) + uploadBytes (heap w t) + word_of_int n"
    using i by (simp only: cu) (simp add: mu_Unlock_def s)
  show "DownloadBytes (rules (CountUpload t n w) ! i) + downloadBytes (heap (CountUpload t n w) t) =
           DownloadBytes (rules w ! i) + downloadBytes (heap w t)"
    using i by (simp only: cu) (simp add: mu_Unlock_def s)
  show "Running (rules (CountUpload t n w) ! i) = Running (rules w ! i)"
    using i by (simp only: cu) (simp add: mu_Unlock_def s)
  show "counters (CountUpload t n w) = counters w"
    by (simp only: cu) (simp add: mu_Unlock_def cs)
qed

lemma CountDownload_conserves:
  assumes f: "findRule (rules w) (ruleID (heap w t)) = Some i"
  shows "findRule (rules (CountDownload t n w)) (ruleID (heap (CountDownload t n w) t)) = Some i"
    and "ruleID (heap (CountDownload t n w) t) = ruleID (heap w t)"
    and "UploadBytes (rules (CountDownload t n w) ! i) + uploadBytes (heap (CountDownload t n w) t) =
           UploadBytes (rules w ! i) + uploadBytes (heap w t)"
    and "DownloadBytes (rules (CountDownload t n w) ! i) + downloadBytes (heap (CountDownload t n w) t) =
           DownloadBytes (rules w ! i) + downloadBytes (heap w t) + word_of_int n"
    and "Running (rules (CountDownload t n w) ! i) = Running (rules w ! i)"
    and "counters (CountDownload t n w) = counters w"
proof -
  let ?w1 = "w\<lparr>trace := trace w @ [Acquire (CounterMu t)],
       heap := (heap w)(t := (heap w t)\<lparr>downloadBytes := downloadBytes (heap w t) + word_of_int n\<rparr>)\<rparr>"
  have i: "i < length (rules w)" using f by (rule findRule_bound)
  have f1: "findRule (rules ?w1) (ruleID (heap ?w1 t)) = Some i" using f by simp
  note s = syncToRule_found [OF f1]
  have cu: "CountDownload t n w =
      mu_Unlock (CounterMu t) (if 3 * second < now w - lastSync (heap w t) then syncToRule t ?w1 else ?w1)"
    by (simp add: CountDownload_def mu_Lock_def Let_def)
  have cs: "counters (syncToRule t ?w1) = counters w"
    by (simp add: syncToRule_def mu_Lock_def mu_Unlock_def Let_def split: option.split)
  show "findRule (rules (CountDownload t n w)) (ruleID (heap (CountDownload t n w) t)) = Some i"
    using f i by (simp only: cu) (simp add: mu_Unlock_def s findRule_update)
  show "ruleID (heap (CountDownload t n w) t) = ruleID (heap w t)"
    by (simp only: cu) (simp add: mu_Unlock_def s)
  show "UploadBytes (rules (CountDownload t n w) ! i) + uploadBytes (heap (CountDownload t n w) t) =
           UploadBytes (rules w ! i) + uploadBytes (heap w t)"
    using i by (simp only: cu) (simp add: mu_Unlock_def s)
  show "DownloadBytes (rules (CountDownload t n w) ! i) + downloadBytes (heap (CountDownload t n w) t) =
           DownloadBytes (rules w ! i) + downloadBytes (heap w t) + word_of_int n"
    using i by (simp only: cu) (simp add: mu_Unlock_def s)
  show "Running (rules (CountDownload t n w) ! i) = Running (rules w ! i)"
    using i by (simp only: cu) (simp add: mu_Unlock_def s)
  show "counters (CountDownload t n w) = counters w"
    by (simp only: cu) (simp add: mu_Unlock_def cs)
qed

lemma traffic_conserves:
  assumes "findRule (rules w) rid = Some i" and "ruleID (heap w (c_counter c)) = rid"
  shows "findRule (rules (traffic c es w)) rid = Some i \<and>
         ruleID (heap (traffic c es w) (c_counter c)) = rid \<and>
         UploadBytes (rules (traffic c es w) ! i) + uploadBytes (heap (traffic c es w) (c_counter c)) =
           UploadBytes (rules w ! i) + uploadBytes (heap w (c_counter c)) + uploaded es \<and>
         DownloadBytes (rules (traffic c es w) ! i) + downloadBytes (heap (traffic c es w) (c_counter c)) =
           DownloadBytes (rules w ! i) + downloadBytes (heap w (c_counter c)) + downloaded es \<and>
         Running (rules (traffic c es w) ! i) = Running (rules w ! i) \<and>
         counters (traffic c es w) = counters w"
  using assms
proof (induction es arbitrary: w)
  case Nil
  then show ?case by simp
next
  case (Cons e es)
  have f: "findRule (rules w) (ruleID (heap w (c_counter c))) = Some i"
    using Cons.prems by simp
  show ?case
  proof (cases e)
    case (Written n)
    show ?thesis
    proof (cases "0 < n")
      case True
      note cu = CountUpload_conserves [OF f, of n]
      have f': "findRule (rules (CountUpload (c_counter c) n w)) rid = Some i"
        using cu(1) cu(2) Cons.prems(2) by simp
      have o': "ruleID (heap (CountUpload (c_counter c) n w) (c_counter c)) = rid"
        using cu(2) Cons.prems(2) by simp
      from Cons.IH [OF f' o'] True Written show ?thesis
        by (simp add: Write_def cu(3-) add.assoc)
    next
      case False
      from Cons.IH [OF Cons.prems] False Written show ?thesis
        by (simp add: Write_def)
    qed
  next
    case (ReadIn n)
    show ?thesis
    proof (cases "0 < n")
      case True
      note cd = CountDownload_conserves [OF f, of n]
      have f': "findRule (rules (CountDownload (c_counter c) n w)) rid = Some i"
        using cd(1) cd(2) Cons.prems(2) by simp
      have o': "ruleID (heap (CountDownload (c_counter c) n w) (c_counter c)) = rid"
        using cd(2) Cons.prems(2) by simp
      from Cons.IH [OF f' o'] True ReadIn show ?thesis
        by (simp add: Read_def cd(3-) add.assoc)
    next
      case False
      from Cons.IH [OF Cons.prems] False ReadIn show ?thesis
        by (simp add: Read_def)
    qed
  next
    case (Elapsed d)
    have f': "findRule (rules (advance d w)) rid = Some i"
      and o': "ruleID (heap (advance d w) (c_counter c)) = rid"
      using Cons.prems by (simp_all add: advance_def)
    from Cons.IH [OF f' o'] Elapsed show ?thesis
      by (simp add: advance_def)
  qed
qed

lemma stopServerLocked_rules:
  assumes found: "findRule (rules w) rid = Some i" and running: "Running (rules w ! i)"
      and live: "counters w rid = Some t"
      and nonneg: "\<not> uploadBytes (heap w t) <s 0" "\<not> downloadBytes (heap w t) <s 0"
  shows "UploadBytes (rules (snd (stopServerLocked rid w)) ! i) =
           UploadBytes (rules w ! i) + uploadBytes (heap w t)"
    and "DownloadBytes (rules (snd (stopServerLocked rid w)) ! i) =
           DownloadBytes (rules w ! i) + downloadBytes (heap w t)"
proof -
  have i: "i < length (rules w)" using found by (rule findRule_bound)
  show "UploadBytes (rules (snd (stopServerLocked rid w)) ! i) =
           UploadBytes (rules w ! i) + uploadBytes (heap w t)"
  proof (cases "0 <s uploadBytes (heap w t) \<or> 0 <s downloadBytes (heap w t)")
    case True
    from stopServerLocked_live(2) [OF found running live True] i show ?thesis by simp
  next
    case False
    with nonneg have z: "uploadBytes (heap w t) = 0" by (intro sless_zero_cases) simp_all
    from False found running live i show ?thesis
      by (simp add: z stopServerLocked_def drainCounter_def mu_Lock_def mu_Unlock_def Let_def
          saveRules_def Close_def split: option.split)
  qed
  show "DownloadBytes (rules (snd (stopServerLocked rid w)) ! i) =
           DownloadBytes (rules w ! i) + downloadBytes (heap w t)"
  proof (cases "0 <s uploadBytes (heap w t) \<or> 0 <s downloadBytes (heap w t)")
    case True
    from stopServerLocked_live(2) [OF found running live True] i show ?thesis by simp
  next
    case False
    with nonneg have z: "downloadBytes (heap w t) = 0" by (intro sless_zero_cases) simp_all
    from False found running live i show ?thesis
      by (simp add: z stopServerLocked_def drainCounter_def mu_Lock_def mu_Unlock_def Let_def
          saveRules_def Close_def split: option.split)
  qed
qed

lemma traffic_then_stop_exact:
  assumes found: "findRule (rules w) rid = Some i" and running: "Running (rules w ! i)"
      and live: "counters w rid = Some (c_counter c)"
      and owner: "ruleID (heap w (c_counter c)) = rid"
      and nonneg: "\<not> uploadBytes (heap (traffic c es w) (c_counter c)) <s 0"
                  "\<not> downloadBytes (heap (traffic c es w) (c_counter c)) <s 0"
  shows "UploadBytes (rules (snd (stopServerLocked rid (traffic c es w))) ! i) =
           UploadBytes (rules w ! i) + uploadBytes (heap w (c_counter c)) + uploaded es"
    and "DownloadBytes (rules (snd (stopServerLocked rid (traffic c es w))) ! i) =
           DownloadBytes (rules w ! i) + downloadBytes (heap w (c_counter c)) + downloaded es"
proof -
  let ?w' = "traffic c es w"
  note tc = traffic_conserves [OF found owner, of es]
  have f': "findRule (rules ?w') rid = Some i" using tc by simp
  have r': "Running (rules ?w' ! i)" using tc running by simp
  have l': "counters ?w' rid = Some (c_counter c)" using tc live by simp
  note st = stopServerLocked_rules [OF f' r' l' nonneg]
  show "UploadBytes (rules (snd (stopServerLocked rid ?w')) ! i) =
           UploadBytes (rules w ! i) + uploadBytes (heap w (c_counter c)) + uploaded es"
    using st(1) tc by simp
  show "DownloadBytes (rules (snd (stopServerLocked rid ?w')) ! i) =
           DownloadBytes (rules w ! i) + downloadBytes (heap w (c_counter c)) + downloaded es"
    using st(2) tc by simp
qed

section \<open>Facts about the registry and the file\<close>

text \<open>
  \<open>AddRule\<close> appends the rule under the returned id with the byte counts it was given;
  it does not look at the ids already in the list.
\<close>

lemma AddRule_appends:
  "fst (AddRule rule w) = (if ID rule = [] then rule_name (length (rules w) + 1) else ID rule) \<and>
   rules (snd (AddRule rule w)) = rules w @ [rule\<lparr>ID := fst (AddRule rule w)\<rparr>] \<and>
   UploadBytes (last (rules (snd (AddRule rule w)))) = UploadBytes rule \<and>
   DownloadBytes (last (rules (snd (AddRule rule w)))) = DownloadBytes rule \<and>
   length (filter (\<lambda>r. ID r = fst (AddRule rule w)) (rules (snd (AddRule rule w)))) =
     Suc (length (filter (\<lambda>r. ID r = fst (AddRule rule w)) (rules w)))"
  by (simp add: AddRule_def saveRules_def mu_Lock_def mu_Unlock_def Let_def)

text \<open>
  No operation changes the id of a rule, \<open>AddRule\<close> and \<open>loadRules\<close> name the rules
  that come with a blank id, so no state of the App holds a rule with a blank id.
\<close>

lemma rule_name_nonempty: "rule_name n \<noteq> []"
  by (simp add: rule_name_def)

lemma assignIDs_no_blank: "[] \<notin> set (map ID (assignIDs i rs))"
  by (induction rs arbitrary: i) (auto simp add: rule_name_def)

lemma utf8_len_Cons_le: "utf8_len (b # bs) - 1 \<le> length bs"
  by (auto simp add: utf8_len_def Let_def split: list.split)

lemma json_string_valid: "utf8_valid s \<Longrightarrow> json_string s = s"
  by (induction s rule: json_string.induct) auto

lemma json_string_blank: "(json_string s = []) = (s = [])"
  by (cases s) auto

lemma json_rule_valid: "rule_utf8 r \<Longrightarrow> json_rule r = r"
  by (simp add: rule_utf8_def json_rule_def json_string_valid)

lemma startServerLocked_ids:
  "map ID (rules (snd (startServerLocked rid w))) = map ID (rules w)"
  by (auto simp add: startServerLocked_def NewTrafficCounter_def net_Listen_def saveRules_def
      Let_def map_update list_update_same_conv dest: findRule_bound split: option.split)

lemma stopServerLocked_ids:
  "map ID (rules (snd (stopServerLocked rid w))) = map ID (rules w)"
proof (cases "findRule (rules w) rid")
  case None
  then show ?thesis by (simp add: stopServerLocked_def)
next
  case (Some i)
  show ?thesis
  proof (cases "Running (rules w ! i)")
    case True
    from stopServerLocked_frame(3) [OF Some True] show ?thesis .
  next
    case False
    with Some show ?thesis by (simp add: stopServerLocked_def)
  qed
qed

lemma syncToRule_ids: "map ID (rules (syncToRule t w)) = map ID (rules w)"
  by (auto simp add: syncToRule_def mu_Lock_def mu_Unlock_def Let_def map_update
      list_update_same_conv dest: findRule_bound split: option.split)

lemma CountUpload_ids: "map ID (rules (CountUpload t n w)) = map ID (rules w)"
  by (simp add: CountUpload_def mu_Lock_def mu_Unlock_def Let_def syncToRule_ids)

lemma CountDownload_ids: "map ID (rules (CountDownload t n w)) = map ID (rules w)"
  by (simp add: CountDownload_def mu_Lock_def mu_Unlock_def Let_def syncToRule_ids)

lemma ResetTrafficStats_ids: "map ID (rules (snd (ResetTrafficStats rid w))) = map ID (rules w)"
  by (auto simp add: ResetTrafficStats_def mu_Lock_def mu_Unlock_def saveRules_def Let_def
      map_update list_update_same_conv dest: findRule_bound split: option.split)

lemma ids_if_start:
  "map ID (rules (if c then snd (startServerLocked rid w) else w)) = map ID (rules w)"
  by (simp add: startServerLocked_ids)

lemma ids_if_stop:
  "map ID (rules (if c then snd (stopServerLocked rid w) else w)) = map ID (rules w)"
  by (simp add: stopServerLocked_ids)

lemma UpdateRule_ids: "map ID (rules (snd (UpdateRule rule w))) = map ID (rules w)"
proof (cases "findRule (rules w) (ID rule)")
  case None
  then show ?thesis by (simp add: UpdateRule_def mu_Lock_def mu_Unlock_def)
next
  case (Some i)
  have i: "i < length (rules w)" using Some by (rule findRule_bound)
  have idi: "ID (rules w ! i) = ID rule" using Some by (rule findRule_ID)
  have "map ID (rules (snd (UpdateRule rule w))) = (map ID (rules w))[i := ID rule]"
    using Some
    by (simp add: UpdateRule_def Let_def mu_Lock_def mu_Unlock_def saveRules_def
        ids_if_start ids_if_stop map_update)
  also have "\<dots> = map ID (rules w)"
    using i idi by (simp add: list_update_same_conv)
  finally show ?thesis .
qed

lemma DeleteRule_ids: "set (map ID (rules (snd (DeleteRule rid w)))) \<subseteq> set (map ID (rules w))"
proof (cases "findRule (rules w) rid")
  case None
  then show ?thesis by (simp add: DeleteRule_def mu_Lock_def mu_Unlock_def)
next
  case (Some i)
  have "map ID (rules (snd (DeleteRule rid w))) =
      take i (map ID (rules w)) @ drop (Suc i) (map ID (rules w))"
    using Some
    by (simp add: DeleteRule_def Let_def mu_Lock_def mu_Unlock_def saveRules_def
        ids_if_stop take_map [symmetric] drop_map [symmetric])
  then have "set (map ID (rules (snd (DeleteRule rid w)))) =
      set (take i (map ID (rules w))) \<union> set (drop (Suc i) (map ID (rules w)))"
    by simp
  also have "\<dots> \<subseteq> set (map ID (rules w))"
    using set_take_subset set_drop_subset by (metis Un_least)
  finally show ?thesis .
qed

lemma AddRule_ids:
  "map ID (rules (snd (AddRule rule w))) = map ID (rules w) @ [fst (AddRule rule w)]"
  "fst (AddRule rule w) \<noteq> []"
  by (simp_all add: AddRule_def saveRules_def mu_Lock_def mu_Unlock_def Let_def rule_name_nonempty)

lemma loadRules_ids:
  "[] \<notin> set (map ID (rules w)) \<Longrightarrow> [] \<notin> set (map ID (rules (snd (loadRules w))))"
  using assignIDs_no_blank
  by (auto simp add: loadRules_def mu_Lock_def mu_Unlock_def Let_def split: ConfigFile.split)

lemma StartServer_ids: "map ID (rules (snd (StartServer rid w))) = map ID (rules w)"
proof -
  have "map ID (rules (snd (StartServer rid w))) =
      map ID (rules (snd (startServerLocked rid (mu_Lock AppMu w))))"
    by (simp add: StartServer_def split_def mu_Unlock_def Let_def)
  also have "\<dots> = map ID (rules (mu_Lock AppMu w))" by (rule startServerLocked_ids)
  also have "\<dots> = map ID (rules w)" by (simp add: mu_Lock_def)
  finally show ?thesis .
qed

lemma StopServer_ids: "map ID (rules (snd (StopServer rid w))) = map ID (rules w)"
proof -
  have "map ID (rules (snd (StopServer rid w))) =
      map ID (rules (snd (stopServerLocked rid (mu_Lock AppMu w))))"
    by (simp add: StopServer_def split_def mu_Unlock_def Let_def)
  also have "\<dots> = map ID (rules (mu_Lock AppMu w))" by (rule stopServerLocked_ids)
  also have "\<dots> = map ID (rules w)" by (simp add: mu_Lock_def)
  finally show ?thesis .
qed

lemma reachable_no_blank_id: "reachable w \<Longrightarrow> [] \<notin> set (map ID (rules w))"
proof (induction rule: reachable.induct)
  case by_new
  show ?case by (simp add: NewApp_def)
next
  case (by_host w P f b)
  then show ?case by simp
next
  case (by_clock w d)
  then show ?case by (simp add: advance_def)
next
  case (by_load w)
  from by_load.IH show ?case by (rule loadRules_ids)
next
  case (by_save w)
  then show ?case by (simp add: saveRules_def)
next
  case (by_list w)
  then show ?case by (simp add: GetRules_def mu_Lock_def mu_Unlock_def Let_def)
next
  case (by_add w rule)
  then show ?case using AddRule_ids(2) [of rule w] by (simp only: AddRule_ids(1)) auto
next
  case (by_update w rule)
  then show ?case by (simp add: UpdateRule_ids del: set_map)
next
  case (by_delete w rid)
  then show ?case using DeleteRule_ids [of rid w] by blast
next
  case (by_start w rid)
  then show ?case by (simp add: StartServer_ids del: set_map)
next
  case (by_stop w rid)
  then show ?case by (simp add: StopServer_ids del: set_map)
next
  case (by_stats w rid)
  then show ?case
    by (simp add: GetTrafficStats_def mu_Lock_def mu_Unlock_def Let_def split: option.split)
next
  case (by_reset w rid)
  then show ?case by (simp add: ResetTrafficStats_ids del: set_map)
next
  case (by_read w c res)
  then show ?case by (simp add: Read_def CountDownload_ids del: set_map)
next
  case (by_write w c res)
  then show ?case by (simp add: Write_def CountUpload_ids del: set_map)
qed

section \<open>Traffic accounting across a stop\<close>

text \<open>
  C1. The claim: the bytes counted by a rule's wrapped connections equal the bytes added to the
  rule's totals once StopServer has completed, none lost and none added twice. The code
  at the run \<open>w_late\<close>: 100 bytes are written and counted, StopServer adds them to the
  rule (total 100) and leaves the counter at 100; the connection stays open, and its next
  write of 1 byte, 4 seconds later, flushes 101 into the rule. 101 bytes were counted, the
  rule's total is 201. (When all the traffic comes before the stop the totals are exact:
  \<open>traffic_then_stop_exact\<close>.)
\<close>

theorem late_write_counts_twice:
  "listeners w_running ''rule_1'' = Some listener1 \<and>
   Accept listener1 (Some 0) = Some conn1 \<and>
   map UploadBytes (rules w_written) = [0] \<and>
   uploadBytes (heap w_written 0) = 100 \<and>
   fst (StopServer ''rule_1'' w_written) = True \<and>
   map UploadBytes (rules w_stopped) = [100] \<and>
   uploadBytes (heap w_stopped 0) = 100 \<and>
   map UploadBytes (rules w_late) = [201] \<and>
   map Running (rules w_late) = [False]"
  by code_simp

text \<open>
  C10. A running instance is stopped while its counter holds unflushed bytes. The stop adds
  them to the rule's totals and leaves the counter's accumulators as they were; after the
  drain (line 502) the listener wrapper, which holds the counter, is still registered, and
  a connection accepted by it holds the same counter. A later write of \<open>n\<close> bytes on that
  connection, more than 3 seconds after the counter's last flush, flushes inline, and the
  rule's totals then hold the drained amounts twice.
\<close>

theorem stop_then_late_flush_counts_twice:
  assumes found: "findRule (rules w) rid = Some i" and running: "Running (rules w ! i)"
      and live: "counters w rid = Some t" and owner: "ruleID (heap w t) = rid"
      and wrapper: "listeners w rid = Some l" "l_counter l = t"
      and conn: "Accept l (Some k) = Some c"
      and unflushed: "0 <s uploadBytes (heap w t) \<or> 0 <s downloadBytes (heap w t)"
      and late: "3 * second < now w + d - lastSync (heap w t)" and n: "0 < n"
  shows "fst (stopServerLocked rid w) = True \<and>
         UploadBytes (rules (snd (stopServerLocked rid w)) ! i) =
           UploadBytes (rules w ! i) + uploadBytes (heap w t) \<and>
         DownloadBytes (rules (snd (stopServerLocked rid w)) ! i) =
           DownloadBytes (rules w ! i) + downloadBytes (heap w t) \<and>
         uploadBytes (heap (snd (stopServerLocked rid w)) t) = uploadBytes (heap w t) \<and>
         downloadBytes (heap (snd (stopServerLocked rid w)) t) = downloadBytes (heap w t) \<and>
         listeners (drainCounter rid (w\<lparr>rules := (rules w)[i := (rules w ! i)\<lparr>Running := False\<rparr>]\<rparr>)) rid = Some l \<and>
         c_counter c = t \<and>
         UploadBytes (rules (snd (Write c (n, e) (advance d (snd (stopServerLocked rid w))))) ! i) =
           UploadBytes (rules w ! i) + 2 * uploadBytes (heap w t) + word_of_int n \<and>
         DownloadBytes (rules (snd (Write c (n, e) (advance d (snd (stopServerLocked rid w))))) ! i) =
           DownloadBytes (rules w ! i) + 2 * downloadBytes (heap w t)"
proof -
  let ?w' = "snd (stopServerLocked rid w)"
  note st = stopServerLocked_live [OF found running live unflushed]
  have i: "i < length (rules w)" using found by (rule findRule_bound)
  have c: "c_counter c = t" using conn wrapper by (auto simp add: Accept_def)
  have reg: "listeners (drainCounter rid (w\<lparr>rules := (rules w)[i := (rules w ! i)\<lparr>Running := False\<rparr>]\<rparr>)) rid = Some l"
    using wrapper by (simp add: drainCounter_def mu_Lock_def mu_Unlock_def Let_def split: option.split)
  let ?w1 = "advance d ?w'"
  let ?w2 = "?w1\<lparr>trace := trace ?w1 @ [Acquire (CounterMu t)],
       heap := (heap ?w1)(t := (heap ?w1 t)\<lparr>uploadBytes := uploadBytes (heap ?w1 t) + word_of_int n\<rparr>)\<rparr>"
  have f2: "findRule (rules ?w2) (ruleID (heap ?w2 t)) = Some i"
    using found i owner by (simp add: advance_def st findRule_update)
  have wr: "snd (Write c (n, e) ?w1) = mu_Unlock (CounterMu t) (syncToRule t ?w2)"
    using n late c by (simp add: Write_def CountUpload_def mu_Lock_def Let_def advance_def st)
  have "rules (snd (Write c (n, e) ?w1)) = rules (syncToRule t ?w2)"
    by (simp only: wr) (simp add: mu_Unlock_def)
  then have rs: "rules (snd (Write c (n, e) ?w1)) = (rules ?w2)[i := (rules ?w2 ! i)
            \<lparr>UploadBytes := UploadBytes (rules ?w2 ! i) + uploadBytes (heap ?w2 t),
             DownloadBytes := DownloadBytes (rules ?w2 ! i) + downloadBytes (heap ?w2 t)\<rparr>]"
    by (simp only: syncToRule_found(1) [OF f2])
  have up: "UploadBytes (rules (snd (Write c (n, e) ?w1)) ! i) =
           UploadBytes (rules w ! i) + 2 * uploadBytes (heap w t) + word_of_int n"
    using i by (simp only: rs) (simp add: advance_def st)
  have down: "DownloadBytes (rules (snd (Write c (n, e) ?w1)) ! i) =
           DownloadBytes (rules w ! i) + 2 * downloadBytes (heap w t)"
    using i by (simp only: rs) (simp add: advance_def st)
  show ?thesis using st i c reg up down by simp
qed

text \<open>
  C10, at a concrete input: the run \<open>w_written\<close>: 100 unflushed bytes, the stop, a write of 1 byte
  4 seconds later; the rule's total is 201.
\<close>

theorem stop_then_late_flush_counts_twice_witness:
  "findRule (rules w_written) ''rule_1'' = Some 0 \<and> Running (rules w_written ! 0) \<and>
   counters w_written ''rule_1'' = Some 0 \<and> ruleID (heap w_written 0) = ''rule_1'' \<and>
   listeners w_written ''rule_1'' = Some listener1 \<and> l_counter listener1 = 0 \<and>
   Accept listener1 (Some 0) = Some conn1 \<and>
   UploadBytes (rules w_written ! 0) = 0 \<and> uploadBytes (heap w_written 0) = 100 \<and>
   3 * second < now w_written + 4 * second - lastSync (heap w_written 0) \<and>
   UploadBytes (rules (snd (stopServerLocked ''rule_1'' w_written)) ! 0) = 100 \<and>
   uploadBytes (heap (snd (stopServerLocked ''rule_1'' w_written)) 0) = 100 \<and>
   UploadBytes (rules (snd (Write conn1 (1, None)
      (advance (4 * second) (snd (stopServerLocked ''rule_1'' w_written))))) ! 0) = 201"
proof -
  have a: "findRule (rules w_written) ''rule_1'' = Some 0" by code_simp
  have b: "Running (rules w_written ! 0)" by code_simp
  have c: "counters w_written ''rule_1'' = Some 0" by code_simp
  have d: "ruleID (heap w_written 0) = ''rule_1''" by code_simp
  have e: "listeners w_written ''rule_1'' = Some listener1" by code_simp
  have f: "l_counter listener1 = 0" by code_simp
  have g: "Accept listener1 (Some 0) = Some conn1" by code_simp
  have h: "0 <s uploadBytes (heap w_written 0) \<or> 0 <s downloadBytes (heap w_written 0)"
    by code_simp
  have i: "3 * second < now w_written + 4 * second - lastSync (heap w_written 0)" by code_simp
  have j: "(0::int) < 1" by simp
  have u0: "UploadBytes (rules w_written ! 0) = 0" by code_simp
  have u1: "uploadBytes (heap w_written 0) = 100" by code_simp
  from stop_then_late_flush_counts_twice [OF a b c d e f g h i j, of None]
  show ?thesis using a b c d e f g i u0 u1 by simp
qed

section \<open>Starting a server\<close>

text \<open>
  C2. The claim: when the bind fails, StartServer returns failure and leaves no entry for
  the id in the counters, servers or listeners maps, and the rule not running. The code at
  \<open>w_port_taken\<close> (port 1080 in use): it returns false, the rule is not running, servers
  and listeners have no entry, but the counter registered before the bind stays in the
  counters map.
\<close>

theorem failed_bind_leaves_counter:
  "Port (rules w_port_taken ! 0) \<in> ports w_port_taken \<and>
   counters w_port_taken ''rule_1'' = None \<and>
   fst (StartServer ''rule_1'' w_port_taken) = False \<and>
   counters (snd (StartServer ''rule_1'' w_port_taken)) ''rule_1'' = Some 0 \<and>
   servers (snd (StartServer ''rule_1'' w_port_taken)) ''rule_1'' = None \<and>
   listeners (snd (StartServer ''rule_1'' w_port_taken)) ''rule_1'' = None \<and>
   map Running (rules (snd (StartServer ''rule_1'' w_port_taken))) = [False]"
  by code_simp

text \<open>
  C8. StartServer on an instance that is running (the first rule with the id is marked
  running and a listener is registered for the id) returns success and changes nothing
  but the log of mutex calls: no counter is allocated, the counters, servers and listeners
  maps and the bound ports are the same, and the id has the listener it had.
\<close>

theorem StartServer_idempotent:
  assumes "findRule (rules w) rid = Some i" and "Running (rules w ! i)"
      and "listeners w rid = Some l"
  shows "startServerLocked rid w = (True, w) \<and>
         fst (StartServer rid w) = True \<and>
         (snd (StartServer rid w))\<lparr>trace := trace w\<rparr> = w \<and>
         counters (snd (StartServer rid w)) = counters w \<and>
         servers (snd (StartServer rid w)) = servers w \<and>
         listeners (snd (StartServer rid w)) = listeners w \<and>
         listeners (snd (StartServer rid w)) rid = Some l \<and>
         nextAddr (snd (StartServer rid w)) = nextAddr w \<and>
         ports (snd (StartServer rid w)) = ports w"
  using assms by (simp add: StartServer_def startServerLocked_def mu_Lock_def mu_Unlock_def)

text \<open>
  C8, at a concrete input: the started rule \<open>rule_1\<close> of \<open>w_running\<close>, started a second time.
\<close>

theorem StartServer_idempotent_witness:
  "findRule (rules w_running) ''rule_1'' = Some 0 \<and> Running (rules w_running ! 0) \<and>
   listeners w_running ''rule_1'' = Some listener1 \<and>
   startServerLocked ''rule_1'' w_running = (True, w_running) \<and>
   fst (StartServer ''rule_1'' w_running) = True \<and>
   listeners (snd (StartServer ''rule_1'' w_running)) ''rule_1'' = Some listener1 \<and>
   counters (snd (StartServer ''rule_1'' w_running)) = counters w_running \<and>
   ports (snd (StartServer ''rule_1'' w_running)) = ports w_running"
proof -
  have a: "findRule (rules w_running) ''rule_1'' = Some 0" by code_simp
  have b: "Running (rules w_running ! 0)" by code_simp
  have c: "listeners w_running ''rule_1'' = Some listener1" by code_simp
  from StartServer_idempotent [OF a b c] show ?thesis using a b c by simp
qed

section \<open>Updating a rule\<close>

text \<open>
  C3. The claim: an update keeps the stored byte counts, and a rule that was running and is
  updated as running is stopped and then restarted under the new configuration. The code at
  \<open>w_flushed\<close>: the update returns true and the stored counts are the old ones (100 and 0,
  not the 999 sent); the server is stopped, the rule is stored as running, and
  \<open>startServerLocked\<close> then returns at its check of \<open>Running\<close>: no listener, server or
  counter is registered for the id and no port is bound.
\<close>

theorem update_running_rule_not_restarted:
  "map Running (rules w_flushed) = [True] \<and>
   map UploadBytes (rules w_flushed) = [100] \<and>
   listeners w_flushed ''rule_1'' = Some listener1 \<and>
   ports w_flushed = {1080} \<and>
   fst (UpdateRule new_rule w_flushed) = True \<and>
   rules (snd (UpdateRule new_rule w_flushed)) =
     [new_rule\<lparr>UploadBytes := 100, DownloadBytes := 0\<rparr>] \<and>
   map Running (rules (snd (UpdateRule new_rule w_flushed))) = [True] \<and>
   listeners (snd (UpdateRule new_rule w_flushed)) ''rule_1'' = None \<and>
   servers (snd (UpdateRule new_rule w_flushed)) ''rule_1'' = None \<and>
   counters (snd (UpdateRule new_rule w_flushed)) ''rule_1'' = None \<and>
   ports (snd (UpdateRule new_rule w_flushed)) = {}"
  by code_simp

section \<open>Persistence on a flush\<close>

text \<open>
  C4. The claim: every 10th flush of an instance spawns a persistence write. The code tests
  the index of the rule in the rule list, not a count of flushes: for the rule at index 1
  no number \<open>n\<close> of flushes spawns a write, and for the rule at index 0 each of the \<open>n\<close>
  flushes spawns one. (Each flush moves one byte, so the rule's total counts the flushes.)
\<close>

theorem saves_follow_rule_index:
  "asyncSaves (flushes n 0 w_second_running) = 0 \<and>
   UploadBytes (rules (flushes n 0 w_second_running) ! 1) = of_nat n \<and>
   asyncSaves (flushes n 0 w_running) = n \<and>
   UploadBytes (rules (flushes n 0 w_running) ! 0) = of_nat n"
proof -
  have a: "findRule (rules w_second_running) (ruleID (heap w_second_running 0)) = Some 1"
    by code_simp
  have b: "lastSync (heap w_second_running 0) \<le> now w_second_running" by code_simp
  have c: "uploadBytes (heap w_second_running 0) = 0" by code_simp
  have d: "asyncSaves w_second_running = 0" by code_simp
  have e: "UploadBytes (rules w_second_running ! Suc 0) = 0" by code_simp
  have a': "findRule (rules w_running) (ruleID (heap w_running 0)) = Some 0"
    by code_simp
  have b': "lastSync (heap w_running 0) \<le> now w_running" by code_simp
  have c': "uploadBytes (heap w_running 0) = 0" by code_simp
  have d': "asyncSaves w_running = 0" by code_simp
  have e': "UploadBytes (rules w_running ! 0) = 0" by code_simp
  from flushes_saves [OF a b c, of n] flushes_saves [OF a' b' c', of n]
  show ?thesis by (simp add: d e d' e')
qed

section \<open>Lock order\<close>

text \<open>
  C5. The claim: no path takes the App mutex while it holds a counter mutex. The code at
  \<open>w_due\<close>: \<open>CountUpload\<close> takes the counter's mutex and, the flush being due, the App
  mutex inside \<open>syncToRule\<close>; \<open>StopServer\<close> takes them in the other order. When each
  goroutine has made its first call, each one's next call takes the mutex the other holds.
\<close>

theorem lock_order_inverted:
  "trace (CountUpload 0 1 w_due) =
     [Acquire (CounterMu 0), Acquire AppMu, Release AppMu, Release (CounterMu 0)] \<and>
   app_under_counter [] (trace (CountUpload 0 1 w_due)) \<and>
   trace (snd (StopServer ''rule_1'' w_due)) =
     [Acquire AppMu, Acquire (CounterMu 0), Release (CounterMu 0), Release AppMu] \<and>
   counter_under_app [] (trace (snd (StopServer ''rule_1'' w_due))) \<and>
   sched [False, True] ([], trace (CountUpload 0 1 w_due), trace (snd (StopServer ''rule_1'' w_due))) =
     Some ([AppMu, CounterMu 0],
           [Acquire AppMu, Release AppMu, Release (CounterMu 0)],
           [Acquire (CounterMu 0), Release (CounterMu 0), Release AppMu]) \<and>
   blocked [AppMu, CounterMu 0] [Acquire AppMu, Release AppMu, Release (CounterMu 0)] \<and>
   blocked [AppMu, CounterMu 0] [Acquire (CounterMu 0), Release (CounterMu 0), Release AppMu]"
  by code_simp

section \<open>Saving and loading\<close>

text \<open>
  C6, as stated, fails: a rule whose name is the byte FF is added to a new App; the list is
  saved and loaded; the name comes back as the three bytes EF BF BD (U+FFFD).
\<close>

theorem invalid_utf8_name_not_reproduced:
  "map Name (rules w_bad) = [[CHR 0xFF]] \<and>
   fst (saveRules w_bad) = None \<and>
   fst (loadRules (snd (saveRules w_bad))) = None \<and>
   map Name (rules (snd (loadRules (snd (saveRules w_bad))))) = [[CHR 0xEF, CHR 0xBF, CHR 0xBD]]"
  by code_simp

text \<open>
  C6, amended: for every rule list of the App, saving to the configuration file and then
  loading it back gives the same entries in the same order, each with the same port,
  noAuth, enableUDP, uploadBytes and downloadBytes, with running false whatever it was, and
  with the id, name, username and password as JSON writes them (every byte that is not
  part of a valid UTF-8 encoding replaced by U+FFFD); a list whose strings are valid UTF-8
  comes back as it was, with running false for every entry.
\<close>

theorem save_load_roundtrip:
  assumes state: "reachable w" and saved: "fst (saveRules w) = None"
  shows "fst (loadRules (snd (saveRules w))) = None \<and>
         rules (snd (loadRules (snd (saveRules w)))) =
           map (\<lambda>r. json_rule (r\<lparr>Running := False\<rparr>)) (rules w) \<and>
         map Running (rules (snd (loadRules (snd (saveRules w))))) = map (\<lambda>r. False) (rules w) \<and>
         map UploadBytes (rules (snd (loadRules (snd (saveRules w))))) = map UploadBytes (rules w) \<and>
         map DownloadBytes (rules (snd (loadRules (snd (saveRules w))))) = map DownloadBytes (rules w) \<and>
         map Port (rules (snd (loadRules (snd (saveRules w))))) = map Port (rules w) \<and>
         map NoAuth (rules (snd (loadRules (snd (saveRules w))))) = map NoAuth (rules w) \<and>
         map EnableUDP (rules (snd (loadRules (snd (saveRules w))))) = map EnableUDP (rules w) \<and>
         ((\<forall>r \<in> set (rules w). rule_utf8 r) \<longrightarrow>
            rules (snd (loadRules (snd (saveRules w)))) = map (\<lambda>r. r\<lparr>Running := False\<rparr>) (rules w))"
proof -
  let ?saved = "map (\<lambda>r. json_rule (r\<lparr>Running := False\<rparr>)) (rules w)"
  let ?loaded = "rules (snd (loadRules (snd (saveRules w))))"
  have wr: "writable w" using saved by (simp add: saveRules_def split: if_splits)
  have ok: "fst (loadRules (snd (saveRules w))) = None"
    using wr by (simp add: saveRules_def loadRules_def mu_Lock_def mu_Unlock_def)
  have "[] \<notin> set (map ID (rules w))" using state by (rule reachable_no_blank_id)
  then have "\<forall>r \<in> set (rules w). ID r \<noteq> []" by force
  then have "\<forall>r \<in> set ?saved. ID r \<noteq> []"
    by (simp add: json_rule_def json_string_blank)
  then have same: "assignIDs 0 ?saved = ?saved" by (rule assignIDs_id)
  have "?loaded = assignIDs 0 ?saved"
    using wr by (simp add: saveRules_def loadRules_def mu_Lock_def mu_Unlock_def)
  with same have loaded: "?loaded = ?saved" by simp
  have exact: "(\<forall>r \<in> set (rules w). rule_utf8 r) \<longrightarrow>
      ?saved = map (\<lambda>r. r\<lparr>Running := False\<rparr>) (rules w)"
    by (auto simp add: json_rule_valid rule_utf8_def)
  show ?thesis using ok exact by (simp add: loaded json_rule_def comp_def)
qed

text \<open>
  C6, at a concrete input: the list of \<open>w_running\<close>, whose one rule is running.
\<close>

theorem save_load_roundtrip_witness:
  "reachable w_running \<and> fst (saveRules w_running) = None \<and>
   map ID (rules w_running) = [''rule_1''] \<and> map Running (rules w_running) = [True] \<and>
   rules (snd (loadRules (snd (saveRules w_running)))) =
     map (\<lambda>r. r\<lparr>Running := False\<rparr>) (rules w_running) \<and>
   map Running (rules (snd (loadRules (snd (saveRules w_running))))) = [False]"
proof -
  have r: "reachable w_running"
    unfolding w_running_def w_added_def by (intro reachable.intros)
  have s: "fst (saveRules w_running) = None" by code_simp
  have ids: "map ID (rules w_running) = [''rule_1'']" by code_simp
  have run: "map Running (rules w_running) = [True]" by code_simp
  have valid: "\<forall>r \<in> set (rules w_running). rule_utf8 r" by code_simp
  note rt = save_load_roundtrip [OF r s]
  from rt valid have all: "rules (snd (loadRules (snd (saveRules w_running)))) =
     map (\<lambda>r. r\<lparr>Running := False\<rparr>) (rules w_running)" by blast
  from rt have "map Running (rules (snd (loadRules (snd (saveRules w_running))))) =
     map (\<lambda>r. False) (rules w_running)" by blast
  moreover have "map (\<lambda>r. False) (rules w_running) = [False]" by code_simp
  ultimately have stopped: "map Running (rules (snd (loadRules (snd (saveRules w_running))))) = [False]"
    by simp
  show ?thesis using r s ids run all stopped by simp
qed

section \<open>Adding a rule\<close>

text \<open>
  C7. The claim: after AddRule the list has exactly one entry with the returned id, and ids
  stay unique. The code names a rule that comes with a blank id \<open>rule_<n+1>\<close>, \<open>n\<close> the
  length of the list. After two rules are added and the first is deleted the list is
  \<open>[rule_2]\<close>; the next rule added with a blank id is named \<open>rule_2\<close> as well, and the
  returned id finds the older rule (port 1081), not the one added (port 1080).
\<close>

theorem AddRule_duplicate_id:
  "reachable w_first_deleted \<and>
   map ID (rules w_first_deleted) = [''rule_2''] \<and>
   fst (AddRule test_rule w_first_deleted) = ''rule_2'' \<and>
   map ID (rules (snd (AddRule test_rule w_first_deleted))) = [''rule_2'', ''rule_2''] \<and>
   map Port (rules (snd (AddRule test_rule w_first_deleted))) = [1081, 1080] \<and>
   findRule (rules (snd (AddRule test_rule w_first_deleted))) ''rule_2'' = Some 0"
proof -
  have r: "reachable w_first_deleted"
    unfolding w_first_deleted_def w_two_def w_added_def by (intro reachable.intros)
  have e: "map ID (rules w_first_deleted) = [''rule_2''] \<and>
   fst (AddRule test_rule w_first_deleted) = ''rule_2'' \<and>
   map ID (rules (snd (AddRule test_rule w_first_deleted))) = [''rule_2'', ''rule_2''] \<and>
   map Port (rules (snd (AddRule test_rule w_first_deleted))) = [1081, 1080] \<and>
   findRule (rules (snd (AddRule test_rule w_first_deleted))) ''rule_2'' = Some 0"
    by code_simp
  show ?thesis using r e by simp
qed

section \<open>Resetting the traffic statistics\<close>

text \<open>
  C9. On an unknown id ResetTrafficStats returns an error and changes nothing but the log of
  mutex calls. On a known id it zeroes the stored byte counts of the first rule with the id
  and leaves the counter objects and the counters map as they are, so the next flush of
  the live counter of the id adds the counter's accumulated bytes to the zeroed totals.
\<close>

theorem ResetTrafficStats_keeps_live_counter:
  "(findRule (rules w) rid = None \<longrightarrow>
      fst (ResetTrafficStats rid w) = Some (RuleNotFound rid) \<and>
      (snd (ResetTrafficStats rid w))\<lparr>trace := trace w\<rparr> = w) \<and>
   (findRule (rules w) rid = Some i \<longrightarrow>
      fst (ResetTrafficStats rid w) = None \<and>
      rules (snd (ResetTrafficStats rid w)) =
        (rules w)[i := (rules w ! i)\<lparr>UploadBytes := 0, DownloadBytes := 0\<rparr>] \<and>
      heap (snd (ResetTrafficStats rid w)) = heap w \<and>
      counters (snd (ResetTrafficStats rid w)) = counters w \<and>
      (counters w rid = Some t \<and> ruleID (heap w t) = rid \<longrightarrow>
         UploadBytes (rules (syncToRule t (snd (ResetTrafficStats rid w))) ! i) = uploadBytes (heap w t) \<and>
         DownloadBytes (rules (syncToRule t (snd (ResetTrafficStats rid w))) ! i) = downloadBytes (heap w t)))"
proof (intro conjI impI)
  assume "findRule (rules w) rid = None"
  then show "fst (ResetTrafficStats rid w) = Some (RuleNotFound rid)"
    and "(snd (ResetTrafficStats rid w))\<lparr>trace := trace w\<rparr> = w"
    by (simp_all add: ResetTrafficStats_def mu_Lock_def mu_Unlock_def)
next
  assume found: "findRule (rules w) rid = Some i"
  let ?w' = "snd (ResetTrafficStats rid w)"
  have i: "i < length (rules w)" using found by (rule findRule_bound)
  show r1: "fst (ResetTrafficStats rid w) = None"
    using found by (simp add: ResetTrafficStats_def mu_Lock_def mu_Unlock_def Let_def)
  show r2: "rules ?w' = (rules w)[i := (rules w ! i)\<lparr>UploadBytes := 0, DownloadBytes := 0\<rparr>]"
    using found by (simp add: ResetTrafficStats_def mu_Lock_def mu_Unlock_def Let_def saveRules_def)
  show r3: "heap ?w' = heap w"
    using found by (simp add: ResetTrafficStats_def mu_Lock_def mu_Unlock_def Let_def saveRules_def)
  show "counters ?w' = counters w"
    using found by (simp add: ResetTrafficStats_def mu_Lock_def mu_Unlock_def Let_def saveRules_def)
  assume live: "counters w rid = Some t \<and> ruleID (heap w t) = rid"
  have f: "findRule (rules ?w') (ruleID (heap ?w' t)) = Some i"
    using found i live by (simp add: r2 r3 findRule_update)
  show "UploadBytes (rules (syncToRule t ?w') ! i) = uploadBytes (heap w t)"
    using i by (simp add: syncToRule_found(1) [OF f] r2 r3)
  show "DownloadBytes (rules (syncToRule t ?w') ! i) = downloadBytes (heap w t)"
    using i by (simp add: syncToRule_found(1) [OF f] r2 r3)
qed

text \<open>
  C9, at a concrete input: an unknown id; the rule with 100 flushed bytes; the rule whose
  live counter holds 100 unflushed bytes.
\<close>

theorem ResetTrafficStats_keeps_live_counter_witness:
  "findRule (rules w_written) ''rule_9'' = None \<and>
   fst (ResetTrafficStats ''rule_9'' w_written) = Some (RuleNotFound ''rule_9'') \<and>
   (snd (ResetTrafficStats ''rule_9'' w_written))\<lparr>trace := trace w_written\<rparr> = w_written \<and>
   findRule (rules w_flushed) ''rule_1'' = Some 0 \<and>
   counters w_flushed ''rule_1'' = Some 0 \<and> ruleID (heap w_flushed 0) = ''rule_1'' \<and>
   UploadBytes (rules w_flushed ! 0) = 100 \<and>
   fst (ResetTrafficStats ''rule_1'' w_flushed) = None \<and>
   UploadBytes (rules (snd (ResetTrafficStats ''rule_1'' w_flushed)) ! 0) = 0 \<and>
   findRule (rules w_written) ''rule_1'' = Some 0 \<and>
   counters w_written ''rule_1'' = Some 0 \<and> ruleID (heap w_written 0) = ''rule_1'' \<and>
   uploadBytes (heap w_written 0) = 100 \<and>
   uploadBytes (heap (snd (ResetTrafficStats ''rule_1'' w_written)) 0) = 100 \<and>
   UploadBytes (rules (syncToRule 0 (snd (ResetTrafficStats ''rule_1'' w_written))) ! 0) = 100"
proof -
  have a: "findRule (rules w_written) ''rule_9'' = None" by code_simp
  have b: "findRule (rules w_flushed) ''rule_1'' = Some 0" by code_simp
  have c: "counters w_flushed ''rule_1'' = Some 0 \<and> ruleID (heap w_flushed 0) = ''rule_1''"
    by code_simp
  have d: "UploadBytes (rules w_flushed ! 0) = 100" by code_simp
  have e: "findRule (rules w_written) ''rule_1'' = Some 0" by code_simp
  have f: "counters w_written ''rule_1'' = Some 0 \<and> ruleID (heap w_written 0) = ''rule_1''"
    by code_simp
  have g: "uploadBytes (heap w_written 0) = 100" by code_simp
  have l: "length (rules w_flushed) = 1" by code_simp
  note unknown = ResetTrafficStats_keeps_live_counter [of w_written "''rule_9''" 0 0]
  note stopped = ResetTrafficStats_keeps_live_counter [of w_flushed "''rule_1''" 0 0]
  note live = ResetTrafficStats_keeps_live_counter [of w_written "''rule_1''" 0 0]
  from unknown a have u: "fst (ResetTrafficStats ''rule_9'' w_written) = Some (RuleNotFound ''rule_9'') \<and>
   (snd (ResetTrafficStats ''rule_9'' w_written))\<lparr>trace := trace w_written\<rparr> = w_written"
    by blast
  from stopped b have s: "fst (ResetTrafficStats ''rule_1'' w_flushed) = None \<and>
      rules (snd (ResetTrafficStats ''rule_1'' w_flushed)) =
        (rules w_flushed)[0 := (rules w_flushed ! 0)\<lparr>UploadBytes := 0, DownloadBytes := 0\<rparr>]"
    by blast
  from live e f have v: "heap (snd (ResetTrafficStats ''rule_1'' w_written)) = heap w_written \<and>
      UploadBytes (rules (syncToRule 0 (snd (ResetTrafficStats ''rule_1'' w_written))) ! 0) =
        uploadBytes (heap w_written 0)"
    by blast
  show ?thesis using a b c d e f g u s v l by simp
qed

end
